theory Spec2Isabelle
  imports Complex_Main "HOL-Library.Word" "HOL-Library.Sublist" "HOL-Library.Multiset"
    "HOL-Library.Log_Nat"
begin

section \<open>JavaScript strings\<close>

text \<open>
  A string is a list of UTF-16 code units, so \<open>length\<close> and \<open>take\<close> count what
  \<^verbatim>\<open>.length\<close> and \<^verbatim>\<open>.slice(0, n)\<close> count. An absent or \<^verbatim>\<open>null\<close> string is
  \<open>None\<close>. The string literals of the source are ASCII; \<open>str\<close> turns such a literal
  into its code units.
\<close>

type_synonym code_unit = "16 word"

type_synonym jstring = "code_unit list"

definition unit_of :: "char \<Rightarrow> code_unit" where
  "unit_of c = of_int (of_char c)"

definition str :: "string \<Rightarrow> jstring" where
  "str s = map unit_of s"

definition is_space :: "code_unit \<Rightarrow> bool" where
  \<comment> \<open>the class \<^verbatim>\<open>\s\<close> of a regular expression, which is also what \<^verbatim>\<open>trim()\<close> removes:
      TAB, LF, VT, FF, CR, SPACE, NBSP, the other space separators U+1680, U+2000 to
      U+200A, U+202F, U+205F, U+3000, the separators U+2028 and U+2029, and U+FEFF\<close>
  "is_space c =
     (c \<in> {0x09, 0x0A, 0x0B, 0x0C, 0x0D, 0x20, 0xA0, 0x1680, 0x2028, 0x2029, 0x202F, 0x205F,
            0x3000, 0xFEFF}
      \<or> (0x2000 \<le> c \<and> c \<le> 0x200A))"

function replace_ws :: "jstring \<Rightarrow> jstring \<Rightarrow> jstring" where
  \<comment> \<open>\<^verbatim>\<open>s.replace(/\s+/g, rep)\<close>: every maximal run of white space becomes \<open>rep\<close>\<close>
  "replace_ws rep [] = []"
| "replace_ws rep (c # cs) =
     (if is_space c then rep @ replace_ws rep (dropWhile is_space cs)
      else c # replace_ws rep cs)"
  by pat_completeness auto
termination
  by (relation "measure (\<lambda>(rep, s). length s)")
     (auto simp: length_dropWhile_le less_Suc_eq_le)

definition trim_start :: "jstring \<Rightarrow> jstring" where
  "trim_start s = dropWhile is_space s"

definition trim_end :: "jstring \<Rightarrow> jstring" where
  "trim_end s = rev (dropWhile is_space (rev s))"

definition trim :: "jstring \<Rightarrow> jstring" where
  \<comment> \<open>\<^verbatim>\<open>s.trim()\<close>\<close>
  "trim s = trim_end (trim_start s)"

function strip_tags :: "jstring \<Rightarrow> jstring" where
  \<comment> \<open>\<^verbatim>\<open>s.replace(/<[^>]*>/g, "")\<close>: scanning from the left, a \<open><\<close> (0x3C) with a
      \<open>>\<close> (0x3E) somewhere after it is removed together with everything up to the
      first such \<open>>\<close>\<close>
  "strip_tags [] = []"
| "strip_tags (c # cs) =
     (if c = 0x3C \<and> 0x3E \<in> set cs
      then strip_tags (tl (dropWhile (\<lambda>d. d \<noteq> 0x3E) cs))
      else c # strip_tags cs)"
  by pat_completeness auto
termination
proof (relation "measure length")
  fix c :: code_unit and cs :: jstring
  have "length (tl (dropWhile (\<lambda>d. d \<noteq> 0x3E) cs)) \<le> length cs"
    using length_dropWhile_le [of "\<lambda>d. d \<noteq> 0x3E" cs] by simp
  then show "(tl (dropWhile (\<lambda>d. d \<noteq> 0x3E) cs), c # cs) \<in> measure length"
    by simp
qed simp_all

fun split_on :: "code_unit \<Rightarrow> jstring \<Rightarrow> jstring list" where
  \<comment> \<open>\<^verbatim>\<open>s.split(sep)\<close> for a separator of one code unit; the empty string gives \<open>[""]\<close>\<close>
  "split_on sep [] = [[]]"
| "split_on sep (c # cs) =
     (if c = sep then [] # split_on sep cs
      else (case split_on sep cs of
              [] \<Rightarrow> [[c]]
            | seg # segs \<Rightarrow> (c # seg) # segs))"

fun join :: "jstring \<Rightarrow> jstring list \<Rightarrow> jstring" where
  \<comment> \<open>\<^verbatim>\<open>xs.join(sep)\<close>\<close>
  "join sep [] = []"
| "join sep [x] = x"
| "join sep (x # y # ys) = x @ sep @ join sep (y # ys)"

fun includes_str :: "jstring \<Rightarrow> jstring \<Rightarrow> bool" where
  \<comment> \<open>\<^verbatim>\<open>s.includes(t)\<close>: \<open>t\<close> starts at some position of \<open>s\<close>\<close>
  "includes_str [] t = (t = [])"
| "includes_str (c # cs) t = (prefix t (c # cs) \<or> includes_str cs t)"

definition or_else :: "jstring option \<Rightarrow> jstring option \<Rightarrow> jstring option" where
  \<comment> \<open>\<^verbatim>\<open>a || b\<close> on strings: the empty string and \<^verbatim>\<open>undefined\<close> are falsy\<close>
  "or_else a b = (case a of None \<Rightarrow> b | Some s \<Rightarrow> if s = [] then b else Some s)"

text \<open>
  \<^verbatim>\<open>String.prototype.toLowerCase\<close> is the lower-case mapping of the Unicode Character
  Database that the runtime ships, applied with its context rules: it is not a map over
  the code units (a capital sigma U+03A3 becomes U+03C3 or, at the end of a word, U+03C2;
  U+0130 becomes two code units). The tables are outside the repository, so the function
  is a parameter of the model, named \<open>toLowerCase\<close> wherever the source calls it.
\<close>

type_synonym case_mapping = "jstring \<Rightarrow> jstring"

section \<open>TextNormalizer: \<^verbatim>\<open>cleanText\<close>\<close>

text \<open>
  The HTML parser (\<^verbatim>\<open>new JSDOM(html)\<close> followed by \<^verbatim>\<open>body.textContent\<close>) is a library
  outside the repository. It is a parameter of the model: a function from the markup to
  the text content of the body, \<open>None\<close> when the parser throws.
\<close>

type_synonym html_parser = "jstring \<Rightarrow> jstring option"

definition normalize_ws :: "jstring \<Rightarrow> jstring" where
  \<comment> \<open>\<^verbatim>\<open>.replace(/\s+/g, " ").trim()\<close>, the tail of both paths\<close>
  "normalize_ws s = trim (replace_ws [0x20] s)"

definition cleanText :: "html_parser \<Rightarrow> jstring option \<Rightarrow> jstring" where
  "cleanText parser html =
     (case html of
        None \<Rightarrow> []
      | Some h \<Rightarrow>
          if h = [] then []
          else (case parser h of
                  Some text \<Rightarrow> normalize_ws text
                | None \<Rightarrow> normalize_ws (strip_tags h)))"

section \<open>JavaScript numbers\<close>

text \<open>
  A number is the rational value of a finite IEEE 754 binary64; every arithmetic
  operation of the source is the exact operation followed by rounding to the nearest
  binary64, ties to the even significand. All values of this program stay far below the
  overflow threshold, so infinities and NaN do not occur.
\<close>

definition pow2 :: "int \<Rightarrow> rat" where
  "pow2 e = (if 0 \<le> e then 2 ^ nat e else 1 / 2 ^ nat (- e))"

definition ilog2 :: "rat \<Rightarrow> int" where
  \<comment> \<open>the binary exponent of a positive rational: \<open>2 ^ ilog2 x \<le> x < 2 ^ (ilog2 x + 1)\<close>\<close>
  "ilog2 x = (let (p, q) = quotient_of x; e = bitlen p - bitlen q
              in if pow2 e \<le> x then e else e - 1)"

definition round_half_even :: "rat \<Rightarrow> int" where
  "round_half_even x =
     (let f = \<lfloor>x\<rfloor>; d = x - of_int f
      in if d < 1 / 2 then f
         else if 1 / 2 < d then f + 1
         else if even f then f else f + 1)"

definition fl :: "rat \<Rightarrow> rat" where
  \<comment> \<open>rounding to binary64: 53 significant bits, exponents from -1022\<close>
  "fl x = (if x = 0 then 0
           else (let a = \<bar>x\<bar>; e = max (ilog2 a) (- 1022); u = pow2 (e - 52)
                 in sgn x * of_int (round_half_even (a / u)) * u))"

definition js_round :: "rat \<Rightarrow> int" where
  \<comment> \<open>\<^verbatim>\<open>Math.round\<close>: the nearest integer, a tie going up\<close>
  "js_round x = \<lfloor>x + 1 / 2\<rfloor>"

fun digit_char :: "nat \<Rightarrow> code_unit" where
  "digit_char n = str ''0123456789ABCDEF'' ! (n mod 16)"

function string_of_nat :: "nat \<Rightarrow> jstring" where
  \<comment> \<open>a non-negative integer inside a template literal\<close>
  "string_of_nat n =
     (if n < 10 then [digit_char n] else string_of_nat (n div 10) @ [digit_char (n mod 10)])"
  by pat_completeness auto
termination
  by (relation "measure id") auto

section \<open>BoundedFetcher: \<^verbatim>\<open>safeFetch\<close>\<close>

text \<open>
  What the runtime does with one request is a parameter of the model. Either \<^verbatim>\<open>fetch\<close>
  rejects with a \<^verbatim>\<open>TypeError\<close> before the ten seconds are over (DNS, TLS, connection
  reset), or the timer fires first and \<^verbatim>\<open>controller.abort()\<close> rejects the fetch with an
  \<^verbatim>\<open>AbortError\<close>, or a response arrives with its status and \<^verbatim>\<open>resp.text()\<close> then
  yields the body or rejects with a \<^verbatim>\<open>TypeError\<close>.
\<close>

datatype js_error = JsError (err_name: jstring) (err_message: jstring)

definition String_of_error :: "js_error \<Rightarrow> jstring" where
  \<comment> \<open>\<^verbatim>\<open>String(err)\<close>, that is \<^verbatim>\<open>Error.prototype.toString\<close>\<close>
  "String_of_error e =
     (if err_name e = [] then err_message e
      else if err_message e = [] then err_name e
      else err_name e @ str '': '' @ err_message e)"

type_synonym 'a promise = "js_error + 'a"

datatype body_behaviour = BodyText jstring | BodyFails jstring

datatype fetch_behaviour = Rejects jstring | TimesOut | Responds nat body_behaviour

datatype timer_state = Pending | Cleared | Fired

record FetchOutcome =
  f_ok :: bool
  f_status :: "nat option"
  f_text :: "jstring option"
  f_error :: "jstring option"

definition safeFetch_try :: "fetch_behaviour \<Rightarrow> FetchOutcome promise \<times> timer_state" where
  \<comment> \<open>the \<^verbatim>\<open>try\<close> block, with the state of the timer when the block is left\<close>
  "safeFetch_try b =
     (let timer = Pending
      in case b of
           Rejects msg \<Rightarrow> (Inl (JsError (str ''TypeError'') msg), timer)
         | TimesOut \<Rightarrow>
             (Inl (JsError (str ''AbortError'') (str ''This operation was aborted'')), Fired)
         | Responds st body \<Rightarrow>
             (let timer = Cleared
              in case body of
                   BodyFails msg \<Rightarrow> (Inl (JsError (str ''TypeError'') msg), timer)
                 | BodyText t \<Rightarrow>
                     (Inr \<lparr>f_ok = True, f_status = Some st, f_text = Some t, f_error = None\<rparr>,
                      timer)))"

definition safeFetch_run :: "fetch_behaviour \<Rightarrow> FetchOutcome promise \<times> timer_state" where
  \<comment> \<open>the whole function: the \<^verbatim>\<open>catch\<close> clause turns an error into an outcome and
      does not touch the timer\<close>
  "safeFetch_run b =
     (case safeFetch_try b of
        (Inl err, timer) \<Rightarrow>
          (Inr \<lparr>f_ok = False, f_status = None, f_text = None,
                f_error = Some (String_of_error err)\<rparr>, timer)
      | (Inr r, timer) \<Rightarrow> (Inr r, timer))"

definition safeFetch :: "fetch_behaviour \<Rightarrow> FetchOutcome promise" where
  "safeFetch b = fst (safeFetch_run b)"

section \<open>ChannelRegistry and AuthorityTable\<close>

definition uri_unreserved :: "code_unit \<Rightarrow> bool" where
  \<comment> \<open>letters, digits and \<^verbatim>\<open>- _ . ! ~ * ' ( )\<close>\<close>
  "uri_unreserved c =
     ((0x41 \<le> c \<and> c \<le> 0x5A) \<or> (0x61 \<le> c \<and> c \<le> 0x7A) \<or> (0x30 \<le> c \<and> c \<le> 0x39)
      \<or> c \<in> {0x2D, 0x5F, 0x2E, 0x21, 0x7E, 0x2A, 0x27, 0x28, 0x29})"

definition is_lead :: "code_unit \<Rightarrow> bool" where
  "is_lead c = (0xD800 \<le> c \<and> c \<le> 0xDBFF)"

definition is_trail :: "code_unit \<Rightarrow> bool" where
  "is_trail c = (0xDC00 \<le> c \<and> c \<le> 0xDFFF)"

definition utf8_bytes :: "int \<Rightarrow> int list" where
  \<comment> \<open>UTF-8 of a code point\<close>
  "utf8_bytes n =
     (if n < 0x80 then [n]
      else if n < 0x800 then [0xC0 + n div 64, 0x80 + n mod 64]
      else if n < 0x10000 then [0xE0 + n div 4096, 0x80 + (n div 64) mod 64, 0x80 + n mod 64]
      else [0xF0 + n div 262144, 0x80 + (n div 4096) mod 64, 0x80 + (n div 64) mod 64,
            0x80 + n mod 64])"

definition percent :: "int \<Rightarrow> jstring" where
  \<comment> \<open>a byte as \<^verbatim>\<open>%XX\<close>\<close>
  "percent b = [0x25, digit_char (nat (b div 16)), digit_char (nat (b mod 16))]"

definition escape_point :: "int \<Rightarrow> jstring" where
  "escape_point n = concat (map percent (utf8_bytes n))"

definition URIError :: js_error where
  "URIError = JsError (str ''URIError'') (str ''URI malformed'')"

fun encodeURIComponent :: "jstring \<Rightarrow> jstring promise" where
  \<comment> \<open>unreserved code units stay; any other code point is escaped byte by byte; a
      surrogate that is not half of a pair throws\<close>
  "encodeURIComponent [] = Inr []"
| "encodeURIComponent (c # cs) =
     (if uri_unreserved c then
        (case encodeURIComponent cs of Inl err \<Rightarrow> Inl err | Inr rest \<Rightarrow> Inr (c # rest))
      else if is_trail c then Inl URIError
      else if is_lead c then
        (case cs of
           [] \<Rightarrow> Inl URIError
         | d # ds \<Rightarrow>
             if is_trail d then
               (case encodeURIComponent ds of
                  Inl err \<Rightarrow> Inl err
                | Inr rest \<Rightarrow>
                    Inr (escape_point ((uint c - 0xD800) * 0x400 + (uint d - 0xDC00) + 0x10000)
                         @ rest))
             else Inl URIError)
      else
        (case encodeURIComponent cs of
           Inl err \<Rightarrow> Inl err
         | Inr rest \<Rightarrow> Inr (escape_point (uint c) @ rest)))"

datatype url_member = UrlFunction "jstring \<Rightarrow> jstring promise" | UrlString jstring

record ChannelDescriptor =
  ch_id :: jstring
  ch_url :: url_member

definition search_channel :: "string \<Rightarrow> string \<Rightarrow> string \<Rightarrow> string \<Rightarrow> ChannelDescriptor" where
  \<comment> \<open>a channel whose URL is \<^verbatim>\<open>`${prefix}${encodeURIComponent(q + extra)}${suffix}`\<close>\<close>
  "search_channel ident pre extra suf =
     \<lparr>ch_id = str ident,
      ch_url = UrlFunction (\<lambda>q. case encodeURIComponent (q @ str extra) of
                                   Inl err \<Rightarrow> Inl err
                                 | Inr enc \<Rightarrow> Inr (str pre @ enc @ str suf))\<rparr>"

definition general_channels :: "ChannelDescriptor list" where
  "general_channels =
     [search_channel ''duckduckgo'' ''https://html.duckduckgo.com/html/?q='' [] [],
      search_channel ''bing'' ''https://www.bing.com/search?q='' [] [],
      search_channel ''brave'' ''https://search.brave.com/search?q='' [] [],
      \<lparr>ch_id = str ''wikipedia'',
       ch_url = UrlFunction (\<lambda>q. case encodeURIComponent (replace_ws (str ''_'') q) of
                                    Inl err \<Rightarrow> Inl err
                                  | Inr enc \<Rightarrow> Inr (str ''https://en.wikipedia.org/wiki/'' @ enc))\<rparr>]"

definition flights_channels :: "ChannelDescriptor list" where
  "flights_channels =
     [search_channel ''duckduckgo'' ''https://html.duckduckgo.com/html/?q='' '' flights'' [],
      search_channel ''google_preview'' ''https://www.google.com/search?q='' '' flights'' [],
      search_channel ''skyscanner'' ''https://www.skyscanner.net/search?keywords='' [] []]"

definition deals_channels :: "ChannelDescriptor list" where
  "deals_channels =
     [search_channel ''google_shopping'' ''https://www.google.com/search?q='' '' best price'' [],
      search_channel ''slickdeals'' ''https://slickdeals.net/newsearch.php?q='' [] [],
      search_channel ''ebay'' ''https://www.ebay.com/sch/i.html?_nkw='' [] []]"

definition sports_channels :: "ChannelDescriptor list" where
  "sports_channels =
     [search_channel ''espn'' ''https://www.espn.com/search/results?q='' [] [],
      search_channel ''bbc_sport'' ''https://www.bbc.co.uk/sport/search?q='' [] [],
      search_channel ''duckduckgo'' ''https://html.duckduckgo.com/html/?q='' '' sports'' []]"

definition research_channels :: "ChannelDescriptor list" where
  "research_channels =
     [search_channel ''arxiv'' ''https://arxiv.org/search/?query='' [] ''&searchtype=all'',
      search_channel ''semantic'' ''https://www.semanticscholar.org/search?q='' [] [],
      search_channel ''pubmed'' ''https://pubmed.ncbi.nlm.nih.gov/?term='' [] []]"

definition finance_channels :: "ChannelDescriptor list" where
  "finance_channels =
     [search_channel ''yahoo_finance'' ''https://finance.yahoo.com/lookup?s='' [] [],
      search_channel ''marketwatch'' ''https://www.marketwatch.com/search?q='' [] [],
      search_channel ''investing'' ''https://www.investing.com/search/?q='' [] []]"

definition CHANNELS :: "(jstring \<times> ChannelDescriptor list) list" where
  "CHANNELS =
     [(str ''general'', general_channels), (str ''flights'', flights_channels),
      (str ''deals'', deals_channels), (str ''sports'', sports_channels),
      (str ''research'', research_channels), (str ''finance'', finance_channels)]"

text \<open>
  \<^verbatim>\<open>CHANNELS[domain]\<close> is a property read on an object literal: a name that is not one of
  the six keys is looked up in \<^verbatim>\<open>Object.prototype\<close>, whose members are functions (and,
  for \<^verbatim>\<open>__proto__\<close>, the prototype object itself): all truthy, none with a \<^verbatim>\<open>map\<close>
  method.
\<close>

definition object_prototype_names :: "jstring list" where
  "object_prototype_names =
     map str
       [''constructor'', ''__proto__'', ''hasOwnProperty'', ''isPrototypeOf'',
        ''propertyIsEnumerable'', ''toLocaleString'', ''toString'', ''valueOf'',
        ''__defineGetter__'', ''__defineSetter__'', ''__lookupGetter__'', ''__lookupSetter__'']"

datatype 'a member = Own 'a | Inherited | Undefined

definition get_member :: "(jstring \<times> 'a) list \<Rightarrow> jstring \<Rightarrow> 'a member" where
  "get_member obj name =
     (case map_of obj name of
        Some v \<Rightarrow> Own v
      | None \<Rightarrow> if name \<in> set object_prototype_names then Inherited else Undefined)"

definition channelsFor :: "jstring \<Rightarrow> ChannelDescriptor list promise" where
  \<comment> \<open>\<^verbatim>\<open>CHANNELS[domain] || CHANNELS.general\<close>, as far as \<^verbatim>\<open>channels.map\<close> can be called\<close>
  "channelsFor domain =
     (case get_member CHANNELS domain of
        Own chs \<Rightarrow> Inr chs
      | Undefined \<Rightarrow> Inr general_channels
      | Inherited \<Rightarrow> Inl (JsError (str ''TypeError'') (str ''channels.map is not a function'')))"

definition authority_map :: "(jstring \<times> rat) list" where
  "authority_map =
     [(str ''arxiv'', fl (95 / 100)), (str ''pubmed'', fl (95 / 100)),
      (str ''semantic'', fl (9 / 10)), (str ''wikipedia'', fl (9 / 10)),
      (str ''yahoo_finance'', fl (8 / 10))]"

definition authorityFor :: "jstring \<Rightarrow> rat" where
  \<comment> \<open>\<^verbatim>\<open>map[id] || 0.5\<close>; it is only called with the id of a channel of \<open>CHANNELS\<close>,
      none of which is a name of \<^verbatim>\<open>Object.prototype\<close>\<close>
  "authorityFor ident =
     (case map_of authority_map ident of
        Some a \<Rightarrow> if a = 0 then 1 / 2 else a
      | None \<Rightarrow> 1 / 2)"

section \<open>FusionEngine: one channel\<close>

record ChannelResult =
  r_id :: jstring
  r_url :: jstring
  r_ok :: bool
  r_status :: "nat option"
  r_error :: "jstring option"
  snippet :: jstring
  matchScore :: nat
  authority :: rat

definition build_url :: "ChannelDescriptor \<Rightarrow> jstring \<Rightarrow> jstring promise" where
  \<comment> \<open>\<^verbatim>\<open>typeof ch.url === "function" ? ch.url(q) : ch.url\<close>\<close>
  "build_url ch q = (case ch_url ch of UrlFunction f \<Rightarrow> f q | UrlString u \<Rightarrow> Inr u)"

definition channel_result ::
  "case_mapping \<Rightarrow> html_parser \<Rightarrow> jstring \<Rightarrow> ChannelDescriptor \<Rightarrow> jstring \<Rightarrow> FetchOutcome
   \<Rightarrow> ChannelResult" where
  \<comment> \<open>the body of the channel callback after \<^verbatim>\<open>await safeFetch(url)\<close> has given \<open>r\<close>\<close>
  "channel_result toLowerCase parser q ch url r =
     (let text = (if f_ok r then take 3000 (cleanText parser (f_text r)) else []);
          score = (if f_ok r \<and> includes_str (toLowerCase text) (toLowerCase q) then 1 else 0)
      in \<lparr>r_id = ch_id ch,
          r_url = url,
          r_ok = f_ok r,
          r_status = (case f_status r of None \<Rightarrow> None
                      | Some st \<Rightarrow> if st = 0 then None else Some st),
          r_error = or_else (f_error r) None,
          snippet = text,
          matchScore = score,
          authority = authorityFor (ch_id ch)\<rparr>)"

definition fetch_channel ::
  "case_mapping \<Rightarrow> html_parser \<Rightarrow> (jstring \<Rightarrow> fetch_behaviour) \<Rightarrow> jstring
   \<Rightarrow> ChannelDescriptor \<Rightarrow> ChannelResult promise" where
  \<comment> \<open>the channel callback; an exception of the URL builder rejects its promise\<close>
  "fetch_channel toLowerCase parser net q ch =
     (case build_url ch q of
        Inl err \<Rightarrow> Inl err
      | Inr url \<Rightarrow>
          (case safeFetch (net url) of
             Inl err \<Rightarrow> Inl err
           | Inr r \<Rightarrow> Inr (channel_result toLowerCase parser q ch url r)))"

fun Promise_all :: "'a promise list \<Rightarrow> 'a list promise" where
  \<comment> \<open>fulfilled with all values, in the order of the list, unless one promise rejects\<close>
  "Promise_all [] = Inr []"
| "Promise_all (p # ps) =
     (case p of
        Inl err \<Rightarrow> Inl err
      | Inr v \<Rightarrow> (case Promise_all ps of Inl err \<Rightarrow> Inl err | Inr vs \<Rightarrow> Inr (v # vs)))"

definition fetches ::
  "case_mapping \<Rightarrow> html_parser \<Rightarrow> (jstring \<Rightarrow> fetch_behaviour) \<Rightarrow> jstring
   \<Rightarrow> ChannelDescriptor list \<Rightarrow> ChannelResult list promise" where
  \<comment> \<open>\<^verbatim>\<open>await Promise.all(channels.map(async (ch) => ...))\<close>\<close>
  "fetches toLowerCase parser net q channels =
     Promise_all (map (fetch_channel toLowerCase parser net q) channels)"

section \<open>FusionEngine: ranking and synthesis\<close>

record Ranked = ChannelResult +
  rank :: rat

definition with_rank :: "ChannelResult \<Rightarrow> Ranked" where
  \<comment> \<open>\<^verbatim>\<open>{ ...r, rank: r.matchScore * r.authority }\<close>\<close>
  "with_rank r =
     \<lparr>r_id = r_id r, r_url = r_url r, r_ok = r_ok r, r_status = r_status r,
      r_error = r_error r, snippet = snippet r, matchScore = matchScore r,
      authority = authority r, rank = fl (of_nat (matchScore r) * authority r)\<rparr>"

definition ranked :: "ChannelResult list \<Rightarrow> Ranked list" where
  \<comment> \<open>\<^verbatim>\<open>results.filter(r => r.ok).map(...).sort((a,b) => b.rank - a.rank)\<close>; the sort of
      the runtime is stable\<close>
  "ranked results = sort_key (\<lambda>r. - rank r) (map with_rank (filter r_ok results))"

definition top5 :: "Ranked list \<Rightarrow> Ranked list" where
  \<comment> \<open>\<^verbatim>\<open>const top = ranked.slice(0,5)\<close>\<close>
  "top5 rs = take 5 rs"

definition executive :: "Ranked list \<Rightarrow> jstring" where
  "executive tops = join (str '' ... '') (map (\<lambda>t. take 300 (snippet t)) tops)"

record Finding =
  finding_text :: jstring
  cite :: "jstring option"

definition segments :: "jstring \<Rightarrow> jstring list" where
  \<comment> \<open>\<^verbatim>\<open>t.snippet.split(".").slice(0,2).map(s => s.trim()).filter(Boolean)\<close>\<close>
  "segments s = filter (\<lambda>x. x \<noteq> []) (map trim (take 2 (split_on 0x2E s)))"

definition cite_of :: "Ranked list \<Rightarrow> nat \<Rightarrow> jstring option" where
  \<comment> \<open>\<^verbatim>\<open>top[i % top.length]?.id || null\<close>; with an empty \<open>top\<close> the index is NaN and the
      element \<^verbatim>\<open>undefined\<close>\<close>
  "cite_of tops i =
     (if tops = [] then None else or_else (Some (r_id (tops ! (i mod length tops)))) None)"

definition findings :: "Ranked list \<Rightarrow> Finding list" where
  "findings tops =
     map (\<lambda>(i, s). \<lparr>finding_text = s, cite = cite_of tops i\<rparr>)
       (enumerate 0 (take 6 (concat (map (\<lambda>t. segments (snippet t)) tops))))"

record AppendixEntry =
  a_id :: jstring
  a_url :: jstring
  a_authority :: rat
  a_status :: "nat option"

definition appendix_entry :: "Ranked \<Rightarrow> AppendixEntry" where
  "appendix_entry r =
     \<lparr>a_id = r_id r, a_url = r_url r, a_authority = authority r, a_status = r_status r\<rparr>"

definition confidence_of :: "Ranked list \<Rightarrow> int" where
  \<comment> \<open>\<^verbatim>\<open>Math.round(Math.min(100, (top.reduce((s,r) => s + r.rank, 0) / (top.length || 1)) * 100))\<close>\<close>
  "confidence_of tops =
     js_round (min 100
       (fl (fl (foldl (\<lambda>s r. fl (s + rank r)) 0 tops
                / of_nat (if length tops = 0 then 1 else length tops)) * 100)))"

record AnswerPayload =
  executive_summary :: jstring
  confidence :: int
  key_findings :: "Finding list"
  detailed_analysis :: jstring
  appendix :: "AppendixEntry list"
  probe :: jstring

definition answer :: "ChannelResult list \<Rightarrow> AnswerPayload" where
  \<comment> \<open>from \<^verbatim>\<open>const ranked\<close> to \<^verbatim>\<open>const answer\<close>\<close>
  "answer results =
     (let rs = ranked results;
          tops = top5 rs;
          exec = executive tops
      in \<lparr>executive_summary = (if exec = [] then str ''No strong evidence found.'' else exec),
          confidence = confidence_of tops,
          key_findings = findings tops,
          detailed_analysis = str ''Searched '' @ string_of_nat (length rs)
                              @ str '' channels, top sources: ''
                              @ join (str '', '') (map r_id tops),
          appendix = map appendix_entry rs,
          probe = str ''Would you like a deeper dive on any result?''\<rparr>)"

section \<open>The handler\<close>

record RequestBody =
  body_domain :: "jstring option"
  body_query :: "jstring option"

record RequestQuery =
  query_domain :: "jstring option"
  query_q :: "jstring option"

record Request =
  req_method :: jstring
  req_body :: "RequestBody option"
  req_query :: RequestQuery

datatype response_body = ErrorBody jstring | AnswerBody jstring jstring AnswerPayload

record Response =
  resp_status :: nat
  resp_headers :: "(jstring \<times> jstring) list"
  resp_body :: response_body

definition or_default :: "jstring option \<Rightarrow> jstring \<Rightarrow> jstring" where
  \<comment> \<open>\<^verbatim>\<open>a || "literal"\<close>\<close>
  "or_default a d = (case or_else a None of None \<Rightarrow> d | Some s \<Rightarrow> s)"

definition request_domain :: "Request \<Rightarrow> jstring" where
  "request_domain req =
     (if req_method req = str ''GET''
      then or_default (query_domain (req_query req)) (str ''general'')
      else or_default (case req_body req of None \<Rightarrow> None | Some b \<Rightarrow> body_domain b)
             (str ''general''))"

definition request_q :: "Request \<Rightarrow> jstring option" where
  "request_q req =
     (if req_method req = str ''GET'' then query_q (req_query req)
      else (case req_body req of None \<Rightarrow> None | Some b \<Rightarrow> body_query b))"

definition handler ::
  "case_mapping \<Rightarrow> html_parser \<Rightarrow> (jstring \<Rightarrow> fetch_behaviour) \<Rightarrow> Request
   \<Rightarrow> Response promise" where
  "handler toLowerCase parser net req =
     (let domain = request_domain req
      in case or_else (request_q req) None of
           None \<Rightarrow>
             Inr \<lparr>resp_status = 400, resp_headers = [],
                  resp_body = ErrorBody (str ''query required'')\<rparr>
         | Some q \<Rightarrow>
             (case channelsFor domain of
                Inl err \<Rightarrow> Inl err
              | Inr channels \<Rightarrow>
                  (case fetches toLowerCase parser net q channels of
                     Inl err \<Rightarrow> Inl err
                   | Inr results \<Rightarrow>
                       Inr \<lparr>resp_status = 200,
                            resp_headers = [(str ''Content-Type'', str ''application/json'')],
                            resp_body = AnswerBody q domain (answer results)\<rparr>)))"

section \<open>Notions of the specification\<close>

text \<open>
  The words of the specification that the code does not define by itself: a string
  occurring in another one up to a mapping of the code units, the average of the ranks,
  and the segments of a snippet as the description of \<open>key_findings\<close> words them.
\<close>

definition occurs_up_to :: "(code_unit \<Rightarrow> code_unit) \<Rightarrow> jstring \<Rightarrow> jstring \<Rightarrow> bool" where
  \<comment> \<open>some substring of \<open>s\<close> is \<open>q\<close> once both are mapped unit by unit (for a mapping
      that folds case: \<open>q\<close> occurs in \<open>s\<close> up to case)\<close>
  "occurs_up_to f q s = (\<exists>a w b. s = a @ w @ b \<and> map f w = map f q)"

definition average :: "rat list \<Rightarrow> rat" where
  "average xs = (if xs = [] then 0 else fl (foldl (\<lambda>s x. fl (s + x)) 0 xs / of_nat (length xs)))"

definition first_two_nonempty :: "jstring \<Rightarrow> jstring list" where
  "first_two_nonempty s = take 2 (filter (\<lambda>x. x \<noteq> []) (map trim (split_on 0x2E s)))"

definition claimed_finding_texts :: "Ranked list \<Rightarrow> jstring list" where
  "claimed_finding_texts tops = take 6 (concat (map (\<lambda>t. first_two_nonempty (snippet t)) tops))"

section \<open>Predicates used in the proofs\<close>

definition well_formed :: "jstring \<Rightarrow> bool" where
  \<comment> \<open>no surrogate code unit at all\<close>
  "well_formed s = (\<forall>c \<in> set s. \<not> is_lead c \<and> \<not> is_trail c)"

fun collapsed :: "jstring \<Rightarrow> bool" where
  "collapsed [] = True"
| "collapsed [c] = (is_space c \<longrightarrow> c = 0x20)"
| "collapsed (c # d # cs) = ((is_space c \<longrightarrow> c = 0x20 \<and> \<not> is_space d) \<and> collapsed (d # cs))"

fun tagfree :: "jstring \<Rightarrow> bool" where
  "tagfree [] = True"
| "tagfree (c # cs) = ((c = 0x3C \<longrightarrow> 0x3E \<notin> set cs) \<and> tagfree cs)"

definition is_bracket :: "code_unit \<Rightarrow> bool" where
  "is_bracket c = (c = 0x3C \<or> c = 0x3E)"

section \<open>Instances of the parameters and three runs\<close>

text \<open>
  An instance of the parser parameter for text without markup: the HTML tokenizer creates
  no element from text that has no \<open><\<close>, and it replaces the character reference
  \<^verbatim>\<open>&amp;\<close> by \<^verbatim>\<open>&\<close>. Other character references do not occur in the inputs it is
  applied to below. White space at the start of the document, which a parser drops, is
  kept here; \<open>cleanText\<close> trims it in either case.
\<close>

function decode_amp :: "jstring \<Rightarrow> jstring" where
  "decode_amp [] = []"
| "decode_amp (c # cs) =
     (if prefix (str ''&amp;'') (c # cs) then 0x26 # decode_amp (drop 4 cs)
      else c # decode_amp cs)"
  by pat_completeness auto
termination
  by (relation "measure length") auto

definition plain_text_parser :: html_parser where
  "plain_text_parser h = Some (decode_amp h)"

text \<open>
  An instance of the lower-case mapping for strings of ASCII characters and Greek letters:
  A to Z and the Greek capitals move up by 32, except that a capital sigma (U+03A3)
  becomes the final sigma U+03C2 when a letter stands before it and none after it, and
  U+03C3 otherwise. This is what \<^verbatim>\<open>toLowerCase\<close> does on such strings as long as no
  sigma stands next to a case-ignorable character (an apostrophe, a full stop, a colon);
  the runs below have no such string.
\<close>

definition ascii_lower :: "code_unit \<Rightarrow> code_unit" where
  "ascii_lower c = (if 0x41 \<le> c \<and> c \<le> 0x5A then c + 0x20 else c)"

definition is_letter :: "code_unit \<Rightarrow> bool" where
  "is_letter c =
     ((0x41 \<le> c \<and> c \<le> 0x5A) \<or> (0x61 \<le> c \<and> c \<le> 0x7A)
      \<or> (0x391 \<le> c \<and> c \<le> 0x3A1) \<or> (0x3A3 \<le> c \<and> c \<le> 0x3A9)
      \<or> (0x3B1 \<le> c \<and> c \<le> 0x3C9))"

fun lower_after :: "bool \<Rightarrow> jstring \<Rightarrow> jstring" where
  \<comment> \<open>the flag tells whether a letter stands before the string\<close>
  "lower_after after_letter [] = []"
| "lower_after after_letter (c # cs) =
     (if c = 0x3A3 then
        (if after_letter \<and> (case cs of [] \<Rightarrow> True | d # ds \<Rightarrow> \<not> is_letter d)
         then 0x3C2 else 0x3C3)
      else if (0x391 \<le> c \<and> c \<le> 0x3A1) \<or> (0x3A4 \<le> c \<and> c \<le> 0x3A9) then c + 0x20
      else ascii_lower c)
     # lower_after (is_letter c) cs"

definition sample_lower :: case_mapping where
  "sample_lower s = lower_after False s"

text \<open>
  Three runs: the deals domain with two channels that answer and one that times out, the
  deals domain with one channel that answers with an empty body, and the query of the one
  letter capital sigma (U+03A3) on the channel \<^verbatim>\<open>ebay\<close>, which answers with capital
  alpha and capital sigma (U+0391 U+03A3).
\<close>

definition deals_net :: "jstring \<Rightarrow> fetch_behaviour" where
  "deals_net url =
     (if url = str ''https://www.google.com/search?q=tv%20best%20price''
        then Responds 200 (BodyText (str ''Wait... what. Yes''))
      else if url = str ''https://www.ebay.com/sch/i.html?_nkw=tv''
        then Responds 404 (BodyText (str ''Best TV deals.  Page not found. Sorry.''))
      else if url = str ''https://slickdeals.net/newsearch.php?q=tv'' then TimesOut
      else Rejects (str ''fetch failed''))"

definition deals_results :: "ChannelResult list" where
  "deals_results =
     [\<lparr>r_id = str ''google_shopping'',
       r_url = str ''https://www.google.com/search?q=tv%20best%20price'',
       r_ok = True, r_status = Some 200, r_error = None,
       snippet = str ''Wait... what. Yes'',
       matchScore = 0, authority = 1 / 2\<rparr>,
      \<lparr>r_id = str ''slickdeals'', r_url = str ''https://slickdeals.net/newsearch.php?q=tv'',
       r_ok = False, r_status = None,
       r_error = Some (str ''AbortError: This operation was aborted''), snippet = [],
       matchScore = 0, authority = 1 / 2\<rparr>,
      \<lparr>r_id = str ''ebay'', r_url = str ''https://www.ebay.com/sch/i.html?_nkw=tv'',
       r_ok = True, r_status = Some 404, r_error = None,
       snippet = str ''Best TV deals. Page not found. Sorry.'',
       matchScore = 1, authority = 1 / 2\<rparr>]"

definition empty_body_net :: "jstring \<Rightarrow> fetch_behaviour" where
  "empty_body_net url =
     (if url = str ''https://www.google.com/search?q=tv%20best%20price''
        then Responds 204 (BodyText [])
      else Rejects (str ''fetch failed''))"

definition empty_body_results :: "ChannelResult list" where
  "empty_body_results =
     [\<lparr>r_id = str ''google_shopping'',
       r_url = str ''https://www.google.com/search?q=tv%20best%20price'',
       r_ok = True, r_status = Some 204, r_error = None, snippet = [],
       matchScore = 0, authority = 1 / 2\<rparr>,
      \<lparr>r_id = str ''slickdeals'', r_url = str ''https://slickdeals.net/newsearch.php?q=tv'',
       r_ok = False, r_status = None, r_error = Some (str ''TypeError: fetch failed''),
       snippet = [], matchScore = 0, authority = 1 / 2\<rparr>,
      \<lparr>r_id = str ''ebay'', r_url = str ''https://www.ebay.com/sch/i.html?_nkw=tv'',
       r_ok = False, r_status = None, r_error = Some (str ''TypeError: fetch failed''),
       snippet = [], matchScore = 0, authority = 1 / 2\<rparr>]"

definition deals_request :: Request where
  "deals_request =
     \<lparr>req_method = str ''POST'',
      req_body = Some \<lparr>body_domain = Some (str ''deals''), body_query = Some (str ''tv'')\<rparr>,
      req_query = \<lparr>query_domain = None, query_q = None\<rparr>\<rparr>"

definition sigma_net :: "jstring \<Rightarrow> fetch_behaviour" where
  "sigma_net url =
     (if url = str ''https://www.ebay.com/sch/i.html?_nkw=%CE%A3''
        then Responds 200 (BodyText [0x391, 0x3A3])
      else Rejects (str ''fetch failed''))"

definition sigma_result :: ChannelResult where
  "sigma_result =
     \<lparr>r_id = str ''ebay'', r_url = str ''https://www.ebay.com/sch/i.html?_nkw=%CE%A3'',
      r_ok = True, r_status = Some 200, r_error = None, snippet = [0x391, 0x3A3],
      matchScore = 0, authority = 1 / 2\<rparr>"

section \<open>String literals\<close>

lemma of_char_bounds: "0 \<le> (of_char c :: int) \<and> (of_char c :: int) < 2 ^ 16"
proof -
  have eq: "(of_char c :: int) = int (of_char c)" by (simp add: of_char_def)
  have "(of_char c :: nat) mod 256 < 256" by simp
  then have "(of_char c :: nat) < 256" by (simp only: of_char_mod_256)
  then have "int (of_char c) < 256" by linarith
  also have "(256 :: int) < 2 ^ 16" by simp
  finally have "0 \<le> int (of_char c) \<and> int (of_char c) < 2 ^ 16" by simp
  then show ?thesis by (simp only: eq [symmetric])
qed

lemma uint_unit_of: "uint (unit_of c) = of_char c"
  using of_char_bounds [of c] by (simp add: unit_of_def uint_word_of_int take_bit_int_eq_self)

lemma unit_of_inj: "unit_of a = unit_of b \<longleftrightarrow> a = b"
proof
  assume "unit_of a = unit_of b"
  then have "uint (unit_of a) = uint (unit_of b)" by simp
  then have "(of_char a :: int) = of_char b" by (simp only: uint_unit_of)
  then show "a = b" by simp
qed simp

lemma str_inj: "str a = str b \<longleftrightarrow> a = b"
proof -
  have "inj unit_of" by (rule injI) (simp add: unit_of_inj)
  then show ?thesis unfolding str_def by (simp add: inj_map_eq_map)
qed

lemma str_eq_Nil: "str a = [] \<longleftrightarrow> a = []"
  by (simp add: str_def)

lemma str_append: "str (a @ b) = str a @ str b"
  by (simp add: str_def)

lemma encodeURIComponent_well_formed:
  "well_formed s \<Longrightarrow> \<exists>u. encodeURIComponent s = Inr u"
  by (induction s) (auto simp: well_formed_def)

lemma well_formed_append: "well_formed (a @ b) \<longleftrightarrow> well_formed a \<and> well_formed b"
  by (auto simp: well_formed_def)

lemma of_char_small: "(of_char c :: int) < 256"
proof -
  have eq: "(of_char c :: int) = int (of_char c)" by (simp add: of_char_def)
  have "(of_char c :: nat) mod 256 < 256" by simp
  then have "(of_char c :: nat) < 256" by (simp only: of_char_mod_256)
  then have "int (of_char c) < 256" by linarith
  then show ?thesis by (simp only: eq [symmetric])
qed

lemma unit_of_plain: "\<not> is_lead (unit_of c) \<and> \<not> is_trail (unit_of c)"
proof -
  have "uint (unit_of c) < 256" using of_char_small [of c] by (simp only: uint_unit_of)
  then show ?thesis by (auto simp: is_lead_def is_trail_def word_le_def)
qed

lemma str_well_formed: "well_formed (str s)"
  by (auto simp: well_formed_def str_def unit_of_plain)

section \<open>White space and tags\<close>

lemma set_replace_ws: "set (replace_ws rep s) \<subseteq> set rep \<union> set s"
proof (induction rep s rule: replace_ws.induct)
  case (1 rep)
  show ?case by simp
next
  case (2 rep c cs)
  show ?case
  proof (cases "is_space c")
    case True
    have "set (dropWhile is_space cs) \<subseteq> set cs" by (auto dest: set_dropWhileD)
    with 2(1) [OF True] True show ?thesis by auto
  next
    case False
    with 2(2) show ?thesis by auto
  qed
qed

lemma collapsed_Cons_plain: "\<not> is_space c \<Longrightarrow> collapsed ys \<Longrightarrow> collapsed (c # ys)"
  by (cases ys) simp_all

lemma collapsed_Cons_blank:
  "collapsed ys \<Longrightarrow> ys = [] \<or> \<not> is_space (hd ys) \<Longrightarrow> collapsed (0x20 # ys)"
  by (cases ys) simp_all

lemma hd_dropWhile_space: "dropWhile is_space cs = [] \<or> \<not> is_space (hd (dropWhile is_space cs))"
  using hd_dropWhile [of is_space cs] by blast

lemma replace_ws_head:
  "ys = [] \<or> \<not> is_space (hd ys) \<Longrightarrow> replace_ws rep ys = [] \<or> \<not> is_space (hd (replace_ws rep ys))"
  by (cases ys) auto

lemma collapsed_replace_ws: "collapsed (replace_ws [0x20] s)"
proof (induction "[0x20::code_unit]" s rule: replace_ws.induct)
  case 1
  show ?case by simp
next
  case (2 c cs)
  show ?case
  proof (cases "is_space c")
    case True
    have "collapsed (0x20 # replace_ws [0x20] (dropWhile is_space cs))"
      using 2(1) [OF True] replace_ws_head [OF hd_dropWhile_space]
      by (intro collapsed_Cons_blank) auto
    with True show ?thesis by simp
  next
    case False
    with 2(2) show ?thesis by (simp add: collapsed_Cons_plain)
  qed
qed

lemma replace_ws_collapsed: "collapsed s \<Longrightarrow> replace_ws [0x20] s = s"
  by (induction s rule: collapsed.induct) auto

lemma collapsed_append: "collapsed (xs @ ys) \<Longrightarrow> collapsed xs \<and> collapsed ys"
proof (induction xs rule: collapsed.induct)
  case 1
  then show ?case by simp
next
  case (2 c)
  then show ?case by (cases ys) auto
next
  case (3 c d cs)
  then show ?case by auto
qed

lemma trim_start_suffix: "\<exists>a. s = a @ trim_start s"
  unfolding trim_start_def by (metis takeWhile_dropWhile_id)

lemma trim_end_prefix: "\<exists>b. s = trim_end s @ b"
proof -
  have "rev s = takeWhile is_space (rev s) @ dropWhile is_space (rev s)" by simp
  then have "s = rev (dropWhile is_space (rev s)) @ rev (takeWhile is_space (rev s))"
    by (metis rev_append rev_rev_ident)
  then show ?thesis unfolding trim_end_def by blast
qed

lemma collapsed_trim: "collapsed s \<Longrightarrow> collapsed (trim s)"
proof -
  assume s: "collapsed s"
  obtain a where a: "s = a @ trim_start s" using trim_start_suffix by blast
  obtain b where b: "trim_start s = trim (s) @ b" using trim_end_prefix [of "trim_start s"] by (auto simp: trim_def)
  from s a have "collapsed (trim_start s)" using collapsed_append by metis
  with b show ?thesis using collapsed_append by metis
qed

lemma trim_start_fixed: "s = [] \<or> \<not> is_space (hd s) \<Longrightarrow> trim_start s = s"
  by (cases s) (auto simp: trim_start_def)

lemma trim_end_idem: "trim_end (trim_end s) = trim_end s"
  by (simp add: trim_end_def)

lemma trim_head: "trim s = [] \<or> \<not> is_space (hd (trim s))"
proof (cases "trim s = []")
  case False
  obtain b where b: "trim_start s = trim s @ b"
    using trim_end_prefix [of "trim_start s"] by (auto simp: trim_def)
  with False have "hd (trim s) = hd (trim_start s)" and "trim_start s \<noteq> []" by auto
  then show ?thesis
    using hd_dropWhile [of is_space s] by (simp add: trim_start_def)
qed simp

lemma trim_idem: "trim (trim s) = trim s"
proof -
  have "trim_start (trim s) = trim s" using trim_head by (rule trim_start_fixed)
  then have "trim (trim s) = trim_end (trim s)" by (simp add: trim_def)
  also have "\<dots> = trim s" by (simp add: trim_def trim_end_idem)
  finally show ?thesis .
qed

lemma normalize_ws_idem: "normalize_ws (normalize_ws s) = normalize_ws s"
proof -
  have "collapsed (normalize_ws s)"
    unfolding normalize_ws_def by (rule collapsed_trim) (rule collapsed_replace_ws)
  then have "replace_ws [0x20] (normalize_ws s) = normalize_ws s" by (rule replace_ws_collapsed)
  then have "normalize_ws (normalize_ws s) = trim (normalize_ws s)"
    by (simp add: normalize_ws_def)
  then show ?thesis by (simp add: normalize_ws_def trim_idem)
qed

lemma strip_tags_tagfree: "tagfree s \<Longrightarrow> strip_tags s = s"
  by (induction s) auto

lemma set_strip_tags: "set (strip_tags s) \<subseteq> set s"
proof (induction s rule: strip_tags.induct)
  case 1
  show ?case by simp
next
  case (2 c cs)
  show ?case
  proof (cases "c = 0x3C \<and> 0x3E \<in> set cs")
    case True
    have "set (tl (dropWhile (\<lambda>d. d \<noteq> 0x3E) cs)) \<subseteq> set cs"
      by (metis list.set_sel(2) set_dropWhileD subsetI tl_Nil)
    with 2(1) [OF True] True show ?thesis by auto
  next
    case False
    with 2(2) show ?thesis by auto
  qed
qed

lemma tagfree_strip_tags: "tagfree (strip_tags s)"
proof (induction s rule: strip_tags.induct)
  case 1
  show ?case by simp
next
  case (2 c cs)
  show ?case
  proof (cases "c = 0x3C \<and> 0x3E \<in> set cs")
    case True
    with 2(1) show ?thesis by simp
  next
    case False
    with 2(2) set_strip_tags [of cs] show ?thesis by auto
  qed
qed

lemma tagfree_filter: "tagfree (filter is_bracket s) = tagfree s"
  by (induction s) (auto simp: is_bracket_def)

lemma bracket_not_space: "is_bracket c \<Longrightarrow> \<not> is_space c"
  by (auto simp: is_bracket_def is_space_def)

lemma filter_dropWhile_space: "filter is_bracket (dropWhile is_space s) = filter is_bracket s"
  by (induction s) (auto dest: bracket_not_space)

lemma filter_replace_ws: "filter is_bracket (replace_ws [0x20] s) = filter is_bracket s"
proof (induction "[0x20::code_unit]" s rule: replace_ws.induct)
  case 1
  show ?case by simp
next
  case (2 c cs)
  show ?case
  proof (cases "is_space c")
    case True
    then have "\<not> is_bracket c" using bracket_not_space by blast
    moreover have "\<not> is_bracket 0x20" by (simp add: is_bracket_def)
    ultimately show ?thesis using True 2(1) [OF True] by (simp add: filter_dropWhile_space)
  next
    case False
    with 2(2) show ?thesis by simp
  qed
qed

lemma filter_trim: "filter is_bracket (trim s) = filter is_bracket s"
proof -
  have "filter is_bracket (trim_end t) = filter is_bracket t" for t
  proof -
    have "filter is_bracket (trim_end t) = rev (filter is_bracket (dropWhile is_space (rev t)))"
      by (simp add: trim_end_def rev_filter)
    also have "\<dots> = rev (filter is_bracket (rev t))" by (simp only: filter_dropWhile_space)
    finally show ?thesis by (simp add: rev_filter)
  qed
  then show ?thesis by (simp add: trim_def trim_start_def filter_dropWhile_space)
qed

lemma tagfree_normalize_ws: "tagfree (normalize_ws s) = tagfree s"
proof -
  have "filter is_bracket (normalize_ws s) = filter is_bracket s"
    by (simp add: normalize_ws_def filter_trim filter_replace_ws)
  then show ?thesis by (metis tagfree_filter)
qed

lemma cleanText_results: "cleanText parser html = [] \<or> (\<exists>t. cleanText parser html = normalize_ws t)"
  by (auto simp: cleanText_def split: option.splits)

lemma cleanText_fixed:
  assumes "parser (cleanText parser (Some x)) = Some (cleanText parser (Some x))
           \<or> (parser x = None \<and> parser (cleanText parser (Some x)) = None)"
  shows "cleanText parser (Some (cleanText parser (Some x))) = cleanText parser (Some x)"
proof -
  define y where "y = cleanText parser (Some x)"
  have norm: "normalize_ws y = y"
    using cleanText_results [of parser "Some x"] normalize_ws_idem
    unfolding y_def normalize_ws_def [of "[]"] by (auto simp: normalize_ws_def trim_def trim_start_def trim_end_def)
  show ?thesis
  proof (cases "y = []")
    case True
    then show ?thesis unfolding y_def [symmetric] by (simp add: cleanText_def)
  next
    case False
    have "parser y = Some y \<or> (parser x = None \<and> parser y = None)"
      using assms by (simp add: y_def)
    then consider (same) "parser y = Some y" | (fallback) "parser x = None" "parser y = None"
      by auto
    then show ?thesis
    proof cases
      case same
      with False norm show ?thesis unfolding y_def [symmetric] by (simp add: cleanText_def)
    next
      case fallback
      with False have "y = normalize_ws (strip_tags x)"
        unfolding y_def by (auto simp: cleanText_def split: if_splits)
      then have "tagfree y" by (simp add: tagfree_normalize_ws tagfree_strip_tags)
      then have "strip_tags y = y" by (rule strip_tags_tagfree)
      with fallback False norm show ?thesis unfolding y_def [symmetric] by (simp add: cleanText_def)
    qed
  qed
qed

section \<open>Properties of \<open>safeFetch\<close> and of one channel\<close>

lemma String_of_error_nonempty: "err_name e \<noteq> [] \<Longrightarrow> String_of_error e \<noteq> []"
  by (simp add: String_of_error_def)

lemma safeFetch_Responds_text:
  "safeFetch (Responds st (BodyText t)) =
     Inr \<lparr>f_ok = True, f_status = Some st, f_text = Some t, f_error = None\<rparr>"
  by (simp add: safeFetch_def safeFetch_run_def safeFetch_try_def)

lemma safeFetch_Responds_fails:
  "safeFetch (Responds st (BodyFails msg)) =
     Inr \<lparr>f_ok = False, f_status = None, f_text = None,
          f_error = Some (String_of_error (JsError (str ''TypeError'') msg))\<rparr>"
  by (simp add: safeFetch_def safeFetch_run_def safeFetch_try_def)

lemma safeFetch_Rejects:
  "safeFetch (Rejects msg) =
     Inr \<lparr>f_ok = False, f_status = None, f_text = None,
          f_error = Some (String_of_error (JsError (str ''TypeError'') msg))\<rparr>"
  by (simp add: safeFetch_def safeFetch_run_def safeFetch_try_def)

lemma safeFetch_TimesOut:
  "safeFetch TimesOut =
     Inr \<lparr>f_ok = False, f_status = None, f_text = None,
          f_error = Some (str ''AbortError: This operation was aborted'')\<rparr>"
  by (simp add: safeFetch_def safeFetch_run_def safeFetch_try_def String_of_error_def str_def)

lemma safeFetch_fulfilled: "\<exists>r. safeFetch b = Inr r"
proof (cases b)
  case (Responds st body)
  then show ?thesis
    by (cases body) (simp_all add: safeFetch_Responds_text safeFetch_Responds_fails)
qed (simp_all add: safeFetch_Rejects safeFetch_TimesOut)

lemma safeFetch_failed:
  assumes "safeFetch b = Inr r" and "\<not> f_ok r"
  shows "f_status r = None \<and> f_text r = None \<and> (\<exists>e. f_error r = Some e \<and> e \<noteq> [])"
proof (cases b)
  case (Rejects msg)
  with assms show ?thesis
    by (auto simp: safeFetch_Rejects String_of_error_def str_eq_Nil)
next
  case TimesOut
  with assms show ?thesis
    by (auto simp: safeFetch_TimesOut str_eq_Nil)
next
  case (Responds st body)
  with assms show ?thesis
    by (cases body)
       (auto simp: safeFetch_Responds_text safeFetch_Responds_fails String_of_error_def
          str_eq_Nil)
qed

lemma fetch_channel_Inr:
  assumes "fetch_channel toLowerCase parser net q ch = Inr r"
  obtains url out where "build_url ch q = Inr url" and "safeFetch (net url) = Inr out"
    and "r = channel_result toLowerCase parser q ch url out"
  using assms by (auto simp: fetch_channel_def split: sum.splits)

lemma channel_result_failed:
  assumes "fetch_channel toLowerCase parser net q ch = Inr r" and "\<not> r_ok r"
  shows "snippet r = [] \<and> matchScore r = 0 \<and> r_status r = None
         \<and> (\<exists>e. r_error r = Some e \<and> e \<noteq> [])"
proof -
  from assms(1) obtain url out where out: "safeFetch (net url) = Inr out"
    and r: "r = channel_result toLowerCase parser q ch url out"
    by (rule fetch_channel_Inr)
  with assms(2) have "\<not> f_ok out"
    by (simp add: channel_result_def Let_def)
  with safeFetch_failed [OF out] r show ?thesis
    by (auto simp: channel_result_def or_else_def)
qed

lemma ranked_all_ok: "x \<in> set (ranked rs) \<Longrightarrow> r_ok x"
  by (auto simp: ranked_def with_rank_def)

lemma includes_str_sublist: "includes_str s t = sublist t s"
  by (induction s) (simp_all add: sublist_Cons_right)

lemma includes_map_iff: "includes_str (map f s) (map f q) = occurs_up_to f q s"
proof
  assume "includes_str (map f s) (map f q)"
  then obtain a b where "map f s = a @ map f q @ b"
    by (auto simp: includes_str_sublist sublist_def)
  then have "\<exists>us vs. s = us @ vs \<and> a = map f us \<and> map f q @ b = map f vs"
    by (simp only: map_eq_append_conv)
  then obtain a' r where s: "s = a' @ r" and r: "map f r = map f q @ b"
    by metis
  from r have "\<exists>us vs. r = us @ vs \<and> map f q = map f us \<and> b = map f vs"
    by (simp only: map_eq_append_conv)
  then obtain w b' where "r = w @ b'" and "map f w = map f q"
    by metis
  with s show "occurs_up_to f q s"
    unfolding occurs_up_to_def by blast
next
  assume "occurs_up_to f q s"
  then obtain a w b where "s = a @ w @ b" and "map f w = map f q"
    unfolding occurs_up_to_def by blast
  then have "map f s = map f a @ map f q @ map f b" by simp
  then show "includes_str (map f s) (map f q)"
    unfolding includes_str_sublist sublist_def by blast
qed

lemma Promise_all_Inr: "Promise_all ps = Inr vs \<longleftrightarrow> ps = map Inr vs"
proof (induction ps arbitrary: vs)
  case Nil
  show ?case by auto
next
  case (Cons p ps)
  show ?case
  proof (cases p)
    case (Inl e)
    then show ?thesis by (cases vs) auto
  next
    case (Inr v)
    show ?thesis
    proof (cases "Promise_all ps")
      case (Inl e)
      with Cons [of "tl vs"] Inr show ?thesis by (cases vs) auto
    next
      case inner: (Inr ws)
      with Cons [of ws] Cons [of "tl vs"] Inr show ?thesis by (cases vs) auto
    qed
  qed
qed

lemma fetches_members:
  assumes "fetches toLowerCase parser net q chs = Inr rs" and "r \<in> set rs"
  shows "\<exists>ch \<in> set chs. fetch_channel toLowerCase parser net q ch = Inr r"
proof -
  from assms(1) have "map (fetch_channel toLowerCase parser net q) chs = map Inr rs"
    by (simp add: fetches_def Promise_all_Inr)
  then have "Inr r \<in> fetch_channel toLowerCase parser net q ` set chs"
    using assms(2) by (metis image_eqI list.set_map)
  then show ?thesis by auto
qed

lemma fetches_length: "fetches toLowerCase parser net q chs = Inr rs \<Longrightarrow> length rs = length chs"
  by (metis Promise_all_Inr fetches_def length_map)

lemma pow2_pos: "0 < pow2 e"
  by (simp add: pow2_def)

lemma round_half_even_nonneg: "0 \<le> x \<Longrightarrow> 0 \<le> round_half_even x"
  by (auto simp: round_half_even_def Let_def)

lemma fl_nonneg: "0 \<le> x \<Longrightarrow> 0 \<le> fl x"
proof (cases "x = 0")
  case True
  then show ?thesis by (simp add: fl_def)
next
  case False
  assume "0 \<le> x"
  with False have pos: "0 < x" by simp
  define u where "u = pow2 (max (ilog2 \<bar>x\<bar>) (- 1022) - 52)"
  have u: "0 < u" unfolding u_def by (rule pow2_pos)
  with pos have "0 \<le> \<bar>x\<bar> / u" by simp
  then have "0 \<le> round_half_even (\<bar>x\<bar> / u)" by (rule round_half_even_nonneg)
  then have "0 \<le> sgn x * of_int (round_half_even (\<bar>x\<bar> / u)) * u"
    using pos u by simp
  then show ?thesis using False by (simp add: fl_def Let_def u_def)
qed

lemma authorityFor_nonneg: "0 \<le> authorityFor ident"
proof -
  have "\<forall>a \<in> snd ` set authority_map. 0 \<le> a"
    by (simp add: authority_map_def fl_nonneg)
  then show ?thesis
    by (auto simp: authorityFor_def split: option.split dest!: map_of_SomeD)
qed

lemma foldl_sum_nonneg:
  "0 \<le> s \<Longrightarrow> \<forall>r \<in> set rs. 0 \<le> rank r \<Longrightarrow> 0 \<le> foldl (\<lambda>s r. fl (s + rank r)) s rs"
  by (induction rs arbitrary: s) (simp_all add: fl_nonneg)

lemma js_round_bounds: "0 \<le> x \<Longrightarrow> 0 \<le> js_round (min 100 x) \<and> js_round (min 100 x) \<le> 100"
proof -
  assume "0 \<le> x"
  then have "0 \<le> min 100 x + 1 / 2" by simp
  then have lo: "0 \<le> js_round (min 100 x)" by (simp add: js_round_def)
  have "min 100 x + 1 / 2 < 101" by simp
  then have "js_round (min 100 x) < 101" unfolding js_round_def by (simp add: floor_less_iff)
  with lo show ?thesis by simp
qed

lemma confidence_of_bounds:
  assumes "\<forall>r \<in> set tops. 0 \<le> rank r"
  shows "0 \<le> confidence_of tops \<and> confidence_of tops \<le> 100"
proof -
  have "0 \<le> foldl (\<lambda>s r. fl (s + rank r)) 0 tops"
    using assms by (intro foldl_sum_nonneg) simp_all
  then have "0 \<le> fl (fl (foldl (\<lambda>s r. fl (s + rank r)) 0 tops
                / of_nat (if length tops = 0 then 1 else length tops)) * 100)"
    by (intro fl_nonneg mult_nonneg_nonneg divide_nonneg_nonneg) simp_all
  then show ?thesis unfolding confidence_of_def by (rule js_round_bounds)
qed

section \<open>Properties of the ranking and of the synthesis\<close>

lemma ranked_sorted: "sorted_wrt (\<lambda>a b. rank b \<le> rank a) (ranked rs)"
proof -
  have "sorted (map (\<lambda>r. - rank r) (ranked rs))"
    unfolding ranked_def by (rule sorted_sort_key)
  then show ?thesis
    by (simp add: sorted_map sorted_wrt_iff_nth_less)
qed

lemma ranked_mset: "mset (ranked rs) = image_mset with_rank (mset (filter r_ok rs))"
  by (simp add: ranked_def)

lemma ranked_length: "length (ranked rs) = length (filter r_ok rs)"
  by (simp add: ranked_def)

lemma appendix_entry_with_rank:
  "appendix_entry (with_rank r) =
     \<lparr>a_id = r_id r, a_url = r_url r, a_authority = authority r, a_status = r_status r\<rparr>"
  by (simp add: appendix_entry_def with_rank_def)

lemma findings_length: "length (findings tops) \<le> 6"
  by (simp add: findings_def)

lemma answer_appendix: "appendix (answer rs) = map appendix_entry (ranked rs)"
  by (simp add: answer_def Let_def)

lemma answer_key_findings: "key_findings (answer rs) = findings (top5 (ranked rs))"
  by (simp add: answer_def Let_def)

lemma answer_confidence: "confidence (answer rs) = confidence_of (top5 (ranked rs))"
  by (simp add: answer_def Let_def)

lemma answer_executive_summary:
  "executive_summary (answer rs) =
     (if executive (top5 (ranked rs)) = [] then (str ''No strong evidence found.'')
      else executive (top5 (ranked rs)))"
  by (simp add: answer_def Let_def)

lemma appendix_mset:
  "mset (appendix (answer rs)) =
     image_mset (\<lambda>r. \<lparr>a_id = r_id r, a_url = r_url r, a_authority = authority r,
                        a_status = r_status r\<rparr>) (mset (filter r_ok rs))"
proof -
  have "mset (appendix (answer rs)) = image_mset appendix_entry (mset (ranked rs))"
    by (simp add: answer_appendix)
  also have "\<dots> = image_mset (appendix_entry \<circ> with_rank) (mset (filter r_ok rs))"
    by (simp add: ranked_mset multiset.map_comp)
  finally show ?thesis by (simp add: comp_def appendix_entry_with_rank)
qed

lemma join_empty_iff: "sep \<noteq> [] \<Longrightarrow> join sep xs = [] \<longleftrightarrow> xs = [] \<or> xs = [[]]"
  by (induction sep xs rule: join.induct) auto

lemma executive_empty_iff:
  "executive tops = [] \<longleftrightarrow> tops = [] \<or> (length tops = 1 \<and> snippet (hd tops) = [])"
proof -
  have "executive tops = [] \<longleftrightarrow>
        map (\<lambda>t. take 300 (snippet t)) tops = [] \<or> map (\<lambda>t. take 300 (snippet t)) tops = [[]]"
    unfolding executive_def by (rule join_empty_iff) (simp add: str_eq_Nil)
  also have "\<dots> \<longleftrightarrow> tops = [] \<or> (length tops = 1 \<and> snippet (hd tops) = [])"
    by (cases tops) (auto simp: length_Suc_conv)
  finally show ?thesis .
qed

lemma findings_nth:
  assumes "i < length (findings tops)"
  shows "findings tops ! i =
           \<lparr>finding_text = take 6 (concat (map (\<lambda>t. segments (snippet t)) tops)) ! i,
            cite = cite_of tops i\<rparr>"
  using assms by (simp add: findings_def nth_enumerate_eq)

lemma findings_texts:
  "map finding_text (findings tops) = take 6 (concat (map (\<lambda>t. segments (snippet t)) tops))"
proof -
  have "map finding_text (findings tops)
        = map snd (enumerate 0 (take 6 (concat (map (\<lambda>t. segments (snippet t)) tops))))"
    by (simp add: findings_def comp_def case_prod_unfold)
  then show ?thesis by simp
qed

lemma findings_nonempty_tops: "findings tops \<noteq> [] \<Longrightarrow> tops \<noteq> []"
  by (auto simp: findings_def)

lemma CHANNELS_known:
  "\<forall>(d, cs) \<in> set CHANNELS.
     \<forall>c \<in> set cs. ch_id c \<noteq> [] \<and> ch_id c \<notin> set object_prototype_names"
  by (simp add: CHANNELS_def general_channels_def flights_channels_def deals_channels_def
      sports_channels_def research_channels_def finance_channels_def search_channel_def
      object_prototype_names_def str_inj str_eq_Nil)

lemma CHANNELS_ids:
  assumes "channelsFor domain = Inr chs" and "ch \<in> set chs"
  shows "ch_id ch \<noteq> [] \<and> ch_id ch \<notin> set object_prototype_names"
proof -
  have "chs = general_channels \<or> (\<exists>d. (d, chs) \<in> set CHANNELS)"
    using assms(1)
    by (auto simp: channelsFor_def get_member_def split: option.splits if_splits dest: map_of_SomeD)
  moreover have "(str ''general'', general_channels) \<in> set CHANNELS" by (simp add: CHANNELS_def)
  ultimately obtain d where "(d, chs) \<in> set CHANNELS" by blast
  with CHANNELS_known assms(2) show ?thesis by blast
qed

section \<open>The handler and its channel results\<close>

lemma search_channel_url:
  "well_formed q \<Longrightarrow> \<exists>u. build_url (search_channel ident pre extra suf) q = Inr u"
proof -
  assume "well_formed q"
  then have "well_formed (q @ str extra)" by (simp add: well_formed_append str_well_formed)
  then obtain enc where "encodeURIComponent (q @ str extra) = Inr enc"
    using encodeURIComponent_well_formed by blast
  then show ?thesis by (simp add: build_url_def search_channel_def)
qed

lemma wikipedia_url:
  assumes "well_formed q"
  shows "\<exists>enc. encodeURIComponent (replace_ws (str ''_'') q) = Inr enc"
proof -
  have "set (replace_ws (str ''_'') q) \<subseteq> set (str ''_'') \<union> set q" by (rule set_replace_ws)
  with assms str_well_formed [of "''_''"] have "well_formed (replace_ws (str ''_'') q)"
    unfolding well_formed_def by blast
  then show ?thesis by (rule encodeURIComponent_well_formed)
qed

lemma registry_urls:
  assumes "channelsFor domain = Inr chs" and "ch \<in> set chs" and "well_formed q"
  shows "\<exists>u. build_url ch q = Inr u"
proof -
  have known: "\<forall>(d, cs) \<in> set CHANNELS. \<forall>c \<in> set cs. \<exists>u. build_url c q = Inr u"
    using wikipedia_url [OF assms(3)] search_channel_url [OF assms(3)]
    by (auto simp: CHANNELS_def general_channels_def flights_channels_def deals_channels_def
        sports_channels_def research_channels_def finance_channels_def build_url_def)
  have "chs = general_channels \<or> (\<exists>d. (d, chs) \<in> set CHANNELS)"
    using assms(1)
    by (auto simp: channelsFor_def get_member_def split: option.splits if_splits dest: map_of_SomeD)
  moreover have "(str ''general'', general_channels) \<in> set CHANNELS" by (simp add: CHANNELS_def)
  ultimately obtain d where "(d, chs) \<in> set CHANNELS" by blast
  with known assms(2) show ?thesis by blast
qed

lemma fetches_fulfilled:
  assumes "\<forall>ch \<in> set chs. \<exists>u. build_url ch q = Inr u"
  shows "\<exists>rs. fetches toLowerCase parser net q chs = Inr rs"
proof -
  have "\<exists>rs. map (fetch_channel toLowerCase parser net q) chs = map Inr rs"
    using assms
  proof (induction chs)
    case Nil
    show ?case by simp
  next
    case (Cons ch chs)
    then obtain rs where rs: "map (fetch_channel toLowerCase parser net q) chs = map Inr rs"
      by auto
    from Cons.prems obtain u where u: "build_url ch q = Inr u" by auto
    obtain out where "safeFetch (net u) = Inr out" using safeFetch_fulfilled by blast
    with u have "\<exists>r. fetch_channel toLowerCase parser net q ch = Inr r"
      by (simp add: fetch_channel_def)
    then obtain r where "fetch_channel toLowerCase parser net q ch = Inr r" by blast
    with rs have "map (fetch_channel toLowerCase parser net q) (ch # chs) = map Inr (r # rs)"
      by simp
    then show ?case by blast
  qed
  then show ?thesis by (simp add: fetches_def Promise_all_Inr)
qed

lemma handler_answers:
  assumes "or_else (request_q req) None = Some q"
    and "channelsFor (request_domain req) = Inr channels"
    and "fetches toLowerCase parser net q channels = Inr results"
  shows "handler toLowerCase parser net req =
           Inr \<lparr>resp_status = 200,
                resp_headers = [(str ''Content-Type'', str ''application/json'')],
                resp_body = AnswerBody q (request_domain req) (answer results)\<rparr>"
  using assms by (simp add: handler_def)

lemma handler_cases:
  assumes "handler toLowerCase parser net req = Inr resp"
  shows "(or_else (request_q req) None = None
          \<and> resp = \<lparr>resp_status = 400, resp_headers = [],
                     resp_body = ErrorBody (str ''query required'')\<rparr>)
       \<or> (\<exists>q channels results.
            request_q req = Some q \<and> q \<noteq> []
            \<and> channelsFor (request_domain req) = Inr channels
            \<and> fetches toLowerCase parser net q channels = Inr results
            \<and> resp = \<lparr>resp_status = 200,
                       resp_headers = [(str ''Content-Type'', str ''application/json'')],
                       resp_body = AnswerBody q (request_domain req) (answer results)\<rparr>)"
proof (cases "or_else (request_q req) None")
  case None
  with assms show ?thesis by (auto simp: handler_def)
next
  case (Some q)
  then have q: "request_q req = Some q" "q \<noteq> []"
    by (auto simp: or_else_def split: option.splits if_splits)
  from assms Some obtain channels where ch: "channelsFor (request_domain req) = Inr channels"
    by (cases "channelsFor (request_domain req)") (auto simp: handler_def)
  from assms Some ch obtain results where
    rs: "fetches toLowerCase parser net q channels = Inr results"
    by (cases "fetches toLowerCase parser net q channels") (auto simp: handler_def)
  from handler_answers [OF Some ch rs] assms q ch rs show ?thesis by auto
qed

lemma top5_subset: "set (top5 rs) \<subseteq> set rs"
  by (auto simp: top5_def dest: in_set_takeD)

lemma ranked_ids_nonempty:
  assumes "channelsFor domain = Inr channels"
    and "fetches toLowerCase parser net q channels = Inr results"
    and "t \<in> set (ranked results)"
  shows "r_id t \<noteq> []"
proof -
  from assms(3) obtain r where r: "r \<in> set results" and t: "t = with_rank r"
    by (auto simp: ranked_def)
  from fetches_members [OF assms(2) r] obtain ch where ch: "ch \<in> set channels"
    and "fetch_channel toLowerCase parser net q ch = Inr r" by blast
  then have "r_id r = ch_id ch"
    by (auto simp: fetch_channel_def channel_result_def Let_def split: sum.splits)
  with CHANNELS_ids [OF assms(1) ch] t show ?thesis by (simp add: with_rank_def)
qed

lemma ranked_rank_nonneg:
  assumes "fetches toLowerCase parser net q channels = Inr results" and "t \<in> set (ranked results)"
  shows "0 \<le> rank t"
proof -
  from assms(2) obtain r where r: "r \<in> set results" and t: "t = with_rank r"
    by (auto simp: ranked_def)
  from fetches_members [OF assms(1) r] obtain ch where
    "fetch_channel toLowerCase parser net q ch = Inr r" by blast
  then have "authority r = authorityFor (ch_id ch)"
    by (auto simp: fetch_channel_def channel_result_def Let_def split: sum.splits)
  then have "0 \<le> of_nat (matchScore r) * authority r"
    by (simp add: authorityFor_nonneg)
  then show ?thesis unfolding t by (simp add: with_rank_def fl_nonneg)
qed

lemma handler_query_required:
  "handler toLowerCase parser net req =
     Inr \<lparr>resp_status = 400, resp_headers = [],
          resp_body = ErrorBody (str ''query required'')\<rparr>
   \<longleftrightarrow> or_else (request_q req) None = None"
proof (cases "or_else (request_q req) None")
  case None
  then show ?thesis by (simp add: handler_def)
next
  case (Some q)
  then show ?thesis
    by (cases "channelsFor (request_domain req)";
        cases "fetches toLowerCase parser net q
                 (case channelsFor (request_domain req) of Inr c \<Rightarrow> c | Inl e \<Rightarrow> [])")
       (auto simp: handler_def)
qed

lemma handler_answers_well_formed:
  assumes "request_q req = Some q" and "q \<noteq> []" and "well_formed q"
    and "channelsFor (request_domain req) = Inr channels"
  shows "\<exists>results. fetches toLowerCase parser net q channels = Inr results
           \<and> handler toLowerCase parser net req =
               Inr \<lparr>resp_status = 200,
                    resp_headers = [(str ''Content-Type'', str ''application/json'')],
                    resp_body = AnswerBody q (request_domain req) (answer results)\<rparr>"
proof -
  have "\<forall>ch \<in> set channels. \<exists>u. build_url ch q = Inr u"
    using registry_urls [OF assms(4) _ assms(3)] by blast
  then obtain results where rs: "fetches toLowerCase parser net q channels = Inr results"
    using fetches_fulfilled by blast
  from assms(1,2) have "or_else (request_q req) None = Some q" by (simp add: or_else_def)
  from handler_answers [OF this assms(4) rs] rs show ?thesis by blast
qed

section \<open>The runs, evaluated\<close>

lemma deals_channelsFor: "channelsFor (str ''deals'') = Inr deals_channels"
  by (simp add: channelsFor_def get_member_def CHANNELS_def str_inj)

lemma deals_fetches:
  "fetches sample_lower plain_text_parser deals_net (str ''tv'') deals_channels = Inr deals_results"
  by code_simp

lemma empty_body_fetches:
  "fetches sample_lower plain_text_parser empty_body_net (str ''tv'') deals_channels = Inr empty_body_results"
  by code_simp

lemma deals_handler_run:
  "handler sample_lower plain_text_parser deals_net deals_request =
     Inr \<lparr>resp_status = 200, resp_headers = [(str ''Content-Type'', str ''application/json'')],
          resp_body = AnswerBody (str ''tv'') (str ''deals'') (answer deals_results)\<rparr>"
proof -
  have q: "or_else (request_q deals_request) None = Some (str ''tv'')"
    by (simp add: deals_request_def request_q_def or_else_def str_inj str_eq_Nil)
  have d: "request_domain deals_request = (str ''deals'')"
    by (simp add: deals_request_def request_domain_def or_default_def or_else_def str_inj
        str_eq_Nil)
  have ch: "channelsFor (request_domain deals_request) = Inr deals_channels"
    by (simp add: d deals_channelsFor)
  from handler_answers [OF q ch deals_fetches] show ?thesis by (simp add: d)
qed

lemma empty_body_top: "top5 (ranked empty_body_results) \<noteq> []"
  by (simp add: top5_def ranked_def empty_body_results_def)

lemma handler_throws_on_lone_surrogate:
  "handler toLowerCase parser net
     \<lparr>req_method = str ''POST'',
      req_body = Some \<lparr>body_domain = Some (str ''deals''), body_query = Some [0xD800]\<rparr>,
      req_query = \<lparr>query_domain = None, query_q = None\<rparr>\<rparr>
   = Inl URIError"
proof -
  have "build_url (deals_channels ! 0) [0xD800] = Inl URIError" by code_simp
  then have "fetches toLowerCase parser net [0xD800] deals_channels = Inl URIError"
    by (simp add: fetches_def fetch_channel_def deals_channels_def)
  then show ?thesis
    by (simp add: handler_def request_domain_def request_q_def or_default_def or_else_def
        deals_channelsFor str_inj str_eq_Nil)
qed

section \<open>Key findings\<close>

text \<open>
  Claim C1 reads the segments of a snippet as its first two non-empty trimmed segments.
  The code cuts the list of segments to its first two before it trims and drops the empty
  ones. In the run below the snippet of the second top result is \<^verbatim>\<open>Wait... what. Yes\<close>:
  its first two segments are \<^verbatim>\<open>Wait\<close> and the empty string, so the code keeps
  \<^verbatim>\<open>Wait\<close> alone, where the first two non-empty segments are \<^verbatim>\<open>Wait\<close> and
  \<^verbatim>\<open>what\<close>.
\<close>

theorem key_findings_first_two_nonempty_counterexample:
  "fetches sample_lower plain_text_parser deals_net (str ''tv'') deals_channels = Inr deals_results
   \<and> map finding_text (key_findings (answer deals_results))
       = [str ''Best TV deals'', str ''Page not found'', str ''Wait'']
   \<and> claimed_finding_texts (top5 (ranked deals_results))
       = [str ''Best TV deals'', str ''Page not found'', str ''Wait'', str ''what'']
   \<and> map finding_text (key_findings (answer deals_results))
       \<noteq> claimed_finding_texts (top5 (ranked deals_results))"
proof -
  have code: "map finding_text (key_findings (answer deals_results))
              = [str ''Best TV deals'', str ''Page not found'', str ''Wait'']"
    by code_simp
  have claimed: "claimed_finding_texts (top5 (ranked deals_results))
                 = [str ''Best TV deals'', str ''Page not found'', str ''Wait'', str ''what'']"
    by code_simp
  from deals_fetches code claimed show ?thesis by simp
qed

text \<open>
  Claim C1, amended: for every top set that the engine produces for a channel list of the
  registry, the texts of \<open>key_findings\<close> are obtained by splitting each top snippet at
  every \<^verbatim>\<open>.\<close>, keeping the first two segments, trimming them and dropping those that
  are empty, flattening in the order of the top set and keeping at most six entries; the
  entry at position \<open>i\<close> cites the id of the top result at position \<open>i\<close> modulo the
  size of the top set.
\<close>

theorem key_findings_from_first_two_segments:
  assumes "channelsFor domain = Inr channels"
    and "fetches toLowerCase parser net q channels = Inr results"
  shows "map finding_text (key_findings (answer results)) =
           take 6 (concat (map (\<lambda>t. filter (\<lambda>x. x \<noteq> [])
                                        (map trim (take 2 (split_on 0x2E (snippet t)))))
                               (top5 (ranked results))))
         \<and> length (key_findings (answer results)) \<le> 6
         \<and> (\<forall>i < length (key_findings (answer results)).
               cite (key_findings (answer results) ! i) =
                 Some (r_id (top5 (ranked results) ! (i mod length (top5 (ranked results))))))"
proof -
  let ?top = "top5 (ranked results)"
  have texts: "map finding_text (findings ?top) =
           take 6 (concat (map (\<lambda>t. filter (\<lambda>x. x \<noteq> [])
                                        (map trim (take 2 (split_on 0x2E (snippet t))))) ?top))"
    using findings_texts [of ?top] by (simp add: segments_def)
  have cites: "cite (findings ?top ! i) = Some (r_id (?top ! (i mod length ?top)))"
    if i: "i < length (findings ?top)" for i
  proof -
    from i have "findings ?top \<noteq> []" by auto
    then have ne: "?top \<noteq> []" by (rule findings_nonempty_tops)
    then have "?top ! (i mod length ?top) \<in> set ?top" by simp
    then have "?top ! (i mod length ?top) \<in> set (ranked results)"
      using top5_subset by blast
    then have "r_id (?top ! (i mod length ?top)) \<noteq> []"
      by (rule ranked_ids_nonempty [OF assms])
    with ne show ?thesis
      by (simp add: findings_nth [OF i] cite_of_def or_else_def)
  qed
  from texts cites show ?thesis
    by (simp add: answer_key_findings findings_length)
qed

theorem key_findings_from_first_two_segments_witness:
  "channelsFor (str ''deals'') = Inr deals_channels
   \<and> fetches sample_lower plain_text_parser deals_net (str ''tv'') deals_channels = Inr deals_results
   \<and> key_findings (answer deals_results) =
       [\<lparr>finding_text = str ''Best TV deals'', cite = Some (str ''ebay'')\<rparr>,
        \<lparr>finding_text = str ''Page not found'', cite = Some (str ''google_shopping'')\<rparr>,
        \<lparr>finding_text = str ''Wait'', cite = Some (str ''ebay'')\<rparr>]
   \<and> length (key_findings (answer deals_results)) \<le> 6"
proof -
  have kf: "key_findings (answer deals_results) =
       [\<lparr>finding_text = str ''Best TV deals'', cite = Some (str ''ebay'')\<rparr>,
        \<lparr>finding_text = str ''Page not found'', cite = Some (str ''google_shopping'')\<rparr>,
        \<lparr>finding_text = str ''Wait'', cite = Some (str ''ebay'')\<rparr>]"
    by code_simp
  from key_findings_from_first_two_segments [OF deals_channelsFor deals_fetches]
  have "length (key_findings (answer deals_results)) \<le> 6" by simp
  with kf deals_channelsFor deals_fetches show ?thesis by simp
qed

section \<open>Executive summary\<close>

text \<open>
  Claim C2 says that the fallback string is used exactly when the top set is empty. The
  code uses it whenever the joined string is empty, which is also the case for a top set
  of one result with an empty snippet: below, the only channel that answers sends an
  empty body.
\<close>

theorem executive_summary_fallback_counterexample:
  "fetches sample_lower plain_text_parser empty_body_net (str ''tv'') deals_channels = Inr empty_body_results
   \<and> top5 (ranked empty_body_results) \<noteq> []
   \<and> executive (top5 (ranked empty_body_results)) = []
   \<and> executive_summary (answer empty_body_results) = (str ''No strong evidence found.'')"
proof -
  have joined: "executive (top5 (ranked empty_body_results)) = []"
    by code_simp
  have "executive_summary (answer empty_body_results) = (str ''No strong evidence found.'')"
    by code_simp
  with empty_body_fetches empty_body_top joined show ?thesis by simp
qed

text \<open>
  Claim C2, amended: for every result of the engine, \<open>executive_summary\<close> is the first
  300 characters of each top snippet joined with \<^verbatim>\<open>" ... "\<close> when that string is not
  empty, and the fallback string \<^verbatim>\<open>No strong evidence found.\<close> otherwise; the joined
  string is empty exactly when the top set is empty or is a single result whose snippet
  is empty.
\<close>

theorem executive_summary_joined_or_fallback:
  assumes "fetches toLowerCase parser net q channels = Inr results"
  shows "executive_summary (answer results) =
           (if join (str '' ... '') (map (\<lambda>t. take 300 (snippet t)) (top5 (ranked results))) = []
            then (str ''No strong evidence found.'')
            else join (str '' ... '') (map (\<lambda>t. take 300 (snippet t)) (top5 (ranked results))))
         \<and> (join (str '' ... '') (map (\<lambda>t. take 300 (snippet t)) (top5 (ranked results))) = []
              \<longleftrightarrow> top5 (ranked results) = []
                  \<or> (length (top5 (ranked results)) = 1
                      \<and> snippet (hd (top5 (ranked results))) = []))"
  using answer_executive_summary [of results] executive_empty_iff [of "top5 (ranked results)"]
  by (simp add: executive_def)

theorem executive_summary_joined_or_fallback_witness:
  "fetches sample_lower plain_text_parser deals_net (str ''tv'') deals_channels = Inr deals_results
   \<and> executive_summary (answer deals_results) =
       (str ''Best TV deals. Page not found. Sorry. ... Wait... what. Yes'')
   \<and> join (str '' ... '') (map (\<lambda>t. take 300 (snippet t)) (top5 (ranked deals_results))) \<noteq> []"
proof -
  have joined: "join (str '' ... '') (map (\<lambda>t. take 300 (snippet t)) (top5 (ranked deals_results)))
                = (str ''Best TV deals. Page not found. Sorry. ... Wait... what. Yes'')"
    by code_simp
  from executive_summary_joined_or_fallback [OF deals_fetches] joined deals_fetches
  show ?thesis by (simp add: str_eq_Nil)
qed

section \<open>Confidence\<close>

text \<open>
  Claim C3: for every channel list of the registry and every behaviour of the network,
  \<open>confidence\<close> is an integer between 0 and 100, it is the rounding of the minimum of
  100 and one hundred times the average rank of the top set (in binary64 arithmetic), and
  it is 0 when the top set is empty.
\<close>

theorem confidence_integer_in_range:
  assumes "channelsFor domain = Inr channels"
    and "fetches toLowerCase parser net q channels = Inr results"
  shows "0 \<le> confidence (answer results) \<and> confidence (answer results) \<le> 100
         \<and> confidence (answer results) =
             js_round (min 100 (fl (average (map rank (top5 (ranked results))) * 100)))
         \<and> (top5 (ranked results) = [] \<longrightarrow> confidence (answer results) = 0)"
proof -
  let ?top = "top5 (ranked results)"
  have nonneg: "\<forall>t \<in> set ?top. 0 \<le> rank t"
    using ranked_rank_nonneg [OF assms(2)] top5_subset by blast
  have bounds: "0 \<le> confidence_of ?top \<and> confidence_of ?top \<le> 100"
    using nonneg by (rule confidence_of_bounds)
  have fold: "foldl (\<lambda>s x. fl (s + x)) 0 (map rank ?top) = foldl (\<lambda>s r. fl (s + rank r)) 0 ?top"
    by (simp add: foldl_map)
  have fl0: "fl 0 = 0" by (simp add: fl_def)
  have formula: "confidence_of ?top = js_round (min 100 (fl (average (map rank ?top) * 100)))"
  proof (cases "?top = []")
    case True
    then show ?thesis by (simp add: confidence_of_def average_def fl0)
  next
    case False
    then show ?thesis by (simp add: confidence_of_def average_def fold)
  qed
  have half: "\<lfloor>(1::rat) / 2\<rfloor> = 0" by (rule floor_unique) simp_all
  have empty: "?top = [] \<longrightarrow> confidence_of ?top = 0"
    by (simp add: confidence_of_def fl0 js_round_def half)
  from bounds formula empty show ?thesis by (simp add: answer_confidence)
qed

theorem confidence_integer_in_range_witness:
  "channelsFor (str ''deals'') = Inr deals_channels
   \<and> fetches sample_lower plain_text_parser deals_net (str ''tv'') deals_channels = Inr deals_results
   \<and> confidence (answer deals_results) = 25
   \<and> 0 \<le> confidence (answer deals_results) \<and> confidence (answer deals_results) \<le> 100"
proof -
  have conf: "confidence (answer deals_results) = 25" by code_simp
  from confidence_integer_in_range [OF deals_channelsFor deals_fetches] conf
  show ?thesis by (simp add: deals_channelsFor deals_fetches)
qed

section \<open>Appendix\<close>

text \<open>
  Claim C4: whenever the handler answers a request with status 200, the query is not
  empty and the appendix of the answer is the list of the ranked results, one entry
  \<open>(id, url, authority, status)\<close> for each channel result with \<open>ok = true\<close> and none
  for a failed one, in an order in which the rank never increases; \<open>key_findings\<close> has
  at most six entries.
\<close>

theorem appendix_lists_successful_channels_by_rank:
  assumes "handler toLowerCase parser net req = Inr resp" and "resp_status resp = 200"
  shows "\<exists>q channels results ans.
           request_q req = Some q \<and> q \<noteq> []
           \<and> channelsFor (request_domain req) = Inr channels
           \<and> fetches toLowerCase parser net q channels = Inr results
           \<and> resp_body resp = AnswerBody q (request_domain req) ans
           \<and> appendix ans = map appendix_entry (ranked results)
           \<and> mset (appendix ans) =
               image_mset (\<lambda>r. \<lparr>a_id = r_id r, a_url = r_url r, a_authority = authority r,
                                  a_status = r_status r\<rparr>) (mset (filter r_ok results))
           \<and> length (appendix ans) = length (filter r_ok results)
           \<and> sorted_wrt (\<lambda>a b. rank b \<le> rank a) (ranked results)
           \<and> length (key_findings ans) \<le> 6"
proof -
  from handler_cases [OF assms(1)] assms(2)
  obtain q channels results where q: "request_q req = Some q" "q \<noteq> []"
    and ch: "channelsFor (request_domain req) = Inr channels"
    and rs: "fetches toLowerCase parser net q channels = Inr results"
    and resp: "resp = \<lparr>resp_status = 200,
                        resp_headers = [(str ''Content-Type'', str ''application/json'')],
                        resp_body = AnswerBody q (request_domain req) (answer results)\<rparr>"
    by auto
  have "length (appendix (answer results)) = length (filter r_ok results)"
    by (simp add: answer_appendix ranked_length)
  moreover have "length (key_findings (answer results)) \<le> 6"
    by (simp add: answer_key_findings findings_length)
  ultimately show ?thesis
    using q ch rs resp answer_appendix [of results] appendix_mset [of results]
      ranked_sorted [of results]
    by (intro exI [of _ q] exI [of _ channels] exI [of _ results] exI [of _ "answer results"])
       simp
qed

theorem appendix_lists_successful_channels_by_rank_witness:
  "handler sample_lower plain_text_parser deals_net deals_request =
     Inr \<lparr>resp_status = 200, resp_headers = [(str ''Content-Type'', str ''application/json'')],
          resp_body = AnswerBody (str ''tv'') (str ''deals'') (answer deals_results)\<rparr>
   \<and> map a_id (appendix (answer deals_results)) = [str ''ebay'', str ''google_shopping'']
   \<and> map rank (ranked deals_results) = [1 / 2, 0]
   \<and> length (filter r_ok deals_results) = 2
   \<and> (\<exists>q channels results ans.
         fetches sample_lower plain_text_parser deals_net q channels = Inr results
         \<and> AnswerBody (str ''tv'') (str ''deals'') (answer deals_results)
             = AnswerBody q (request_domain deals_request) ans
         \<and> length (appendix ans) = length (filter r_ok results)
         \<and> sorted_wrt (\<lambda>a b. rank b \<le> rank a) (ranked results)
         \<and> length (key_findings ans) \<le> 6)"
proof -
  have ids: "map a_id (appendix (answer deals_results)) = [str ''ebay'', str ''google_shopping'']"
    by code_simp
  have ranks: "map rank (ranked deals_results) = [1 / 2, 0]" by code_simp
  have oks: "length (filter r_ok deals_results) = 2" by (simp add: deals_results_def)
  from appendix_lists_successful_channels_by_rank [OF deals_handler_run] ids ranks oks
    deals_handler_run
  show ?thesis by simp blast
qed

section \<open>BoundedFetcher\<close>

text \<open>
  Claim C5: \<open>safeFetch\<close> is fulfilled for every behaviour of the network and never
  rejected. A response whose body is read gives \<open>ok = true\<close> with the status, whatever
  it is, and the body; a rejected fetch, an abort by the timer and a body that cannot be
  read give \<open>ok = false\<close> with the error as a string.
\<close>

theorem safeFetch_never_throws:
  "(\<exists>r. safeFetch b = Inr r)
   \<and> safeFetch (Responds st (BodyText t)) =
       Inr \<lparr>f_ok = True, f_status = Some st, f_text = Some t, f_error = None\<rparr>
   \<and> safeFetch (Rejects msg) =
       Inr \<lparr>f_ok = False, f_status = None, f_text = None,
            f_error = Some (String_of_error (JsError (str ''TypeError'') msg))\<rparr>
   \<and> safeFetch TimesOut =
       Inr \<lparr>f_ok = False, f_status = None, f_text = None,
            f_error = Some (str ''AbortError: This operation was aborted'')\<rparr>
   \<and> safeFetch (Responds st (BodyFails msg)) =
       Inr \<lparr>f_ok = False, f_status = None, f_text = None,
            f_error = Some (String_of_error (JsError (str ''TypeError'') msg))\<rparr>"
  by (simp add: safeFetch_fulfilled safeFetch_Responds_text safeFetch_Rejects
      safeFetch_TimesOut safeFetch_Responds_fails)

theorem safeFetch_never_throws_witness:
  "safeFetch (Responds 503 (BodyText (str ''Service Unavailable''))) =
     Inr \<lparr>f_ok = True, f_status = Some 503, f_text = Some (str ''Service Unavailable''),
          f_error = None\<rparr>
   \<and> safeFetch (Rejects (str ''fetch failed'')) =
     Inr \<lparr>f_ok = False, f_status = None, f_text = None,
          f_error = Some (str ''TypeError: fetch failed'')\<rparr>"
  using safeFetch_never_throws [of TimesOut 503 "str ''Service Unavailable''" "str ''fetch failed''"]
  by (simp add: String_of_error_def str_def)

text \<open>
  Claim C9 asks for the timer to be cleared on every path. The call of
  \<^verbatim>\<open>clearTimeout\<close> is the statement after \<^verbatim>\<open>await fetch\<close>, so it runs once a response
  has arrived; when the fetch rejects before the ten seconds are over, control goes to the
  \<^verbatim>\<open>catch\<close> clause and the function returns with the timer still pending.
\<close>

theorem safeFetch_timer_pending_after_error:
  "snd (safeFetch_run (Rejects msg)) = Pending
   \<and> fst (safeFetch_run (Rejects msg)) =
       Inr \<lparr>f_ok = False, f_status = None, f_text = None,
            f_error = Some (String_of_error (JsError (str ''TypeError'') msg))\<rparr>
   \<and> snd (safeFetch_run (Responds st body)) = Cleared"
  by (simp add: safeFetch_run_def safeFetch_try_def split: body_behaviour.split)

section \<open>Status of the response\<close>

text \<open>
  Claim C6 asks for status 200 for every non-empty query. For a domain that names a
  member of \<^verbatim>\<open>Object.prototype\<close> the value of \<^verbatim>\<open>CHANNELS[domain]\<close> is truthy, the
  fallback to the general list is skipped, and \<^verbatim>\<open>channels.map\<close> throws: the handler is
  rejected with a \<^verbatim>\<open>TypeError\<close> for every parser and every network.
\<close>

theorem handler_throws_on_inherited_domain:
  "handler toLowerCase parser net
     \<lparr>req_method = str ''GET'', req_body = None,
      req_query = \<lparr>query_domain = Some (str ''constructor''), query_q = Some (str ''tv'')\<rparr>\<rparr>
   = Inl (JsError (str ''TypeError'') (str ''channels.map is not a function''))"
  by (simp add: handler_def request_domain_def request_q_def or_default_def or_else_def
      channelsFor_def get_member_def CHANNELS_def object_prototype_names_def str_inj
      str_eq_Nil)

section \<open>Channel results\<close>

text \<open>
  Claim C7 says that \<open>matchScore\<close> is 1 exactly when the query occurs in the snippet up
  to case. The code compares the lower-case forms of the two strings, and lower-casing a
  string is not lower-casing its parts: in the snippet U+0391 U+03A3 the capital sigma
  ends a word and becomes the final sigma U+03C2, the query U+03A3 alone becomes U+03C3,
  and the score is 0 although the query stands in the snippet letter for letter.
\<close>

theorem matchScore_case_insensitive_counterexample:
  "fetch_channel sample_lower plain_text_parser sigma_net [0x3A3] (deals_channels ! 2)
     = Inr sigma_result
   \<and> r_ok sigma_result
   \<and> snippet sigma_result = [0x391, 0x3A3]
   \<and> sublist [0x3A3] (snippet sigma_result)
   \<and> sample_lower (snippet sigma_result) = [0x3B1, 0x3C2]
   \<and> sample_lower [0x3A3] = [0x3C3]
   \<and> matchScore sigma_result = 0"
proof -
  have run: "fetch_channel sample_lower plain_text_parser sigma_net [0x3A3] (deals_channels ! 2)
             = Inr sigma_result"
    by code_simp
  have occurs: "sublist [0x3A3] (snippet sigma_result)"
    unfolding sublist_def by (rule exI [of _ "[0x391]"], rule exI [of _ "[]"])
      (simp add: sigma_result_def)
  have snippet_lower: "sample_lower (snippet sigma_result) = [0x3B1, 0x3C2]" by code_simp
  have query_lower: "sample_lower [0x3A3] = [0x3C3]" by code_simp
  from run occurs snippet_lower query_lower show ?thesis by (simp add: sigma_result_def)
qed

text \<open>
  Claim C7, amended: a channel whose fetch succeeded got a response with a body; its
  snippet is the normalized body cut to its first 3000 code units, before any scoring;
  \<open>matchScore\<close> is 1 exactly when the lower-case form of the query is a substring of
  the lower-case form of that snippet, and 0 otherwise. Where \<^verbatim>\<open>toLowerCase\<close> maps both
  strings unit by unit (as it does on ASCII text), that is exactly when the query occurs
  in the snippet up to case.
\<close>

theorem snippet_capped_and_lowercase_match:
  assumes "fetch_channel toLowerCase parser net q ch = Inr r" and "r_ok r"
  shows "\<exists>url st body. build_url ch q = Inr url
           \<and> net url = Responds st (BodyText body)
           \<and> snippet r = take 3000 (cleanText parser (Some body))
           \<and> length (snippet r) \<le> 3000
           \<and> (matchScore r = 1 \<longleftrightarrow> sublist (toLowerCase q) (toLowerCase (snippet r)))
           \<and> (matchScore r = 0 \<longleftrightarrow> \<not> sublist (toLowerCase q) (toLowerCase (snippet r)))
           \<and> (toLowerCase q = map f q \<and> toLowerCase (snippet r) = map f (snippet r)
                \<longrightarrow> (matchScore r = 1 \<longleftrightarrow> occurs_up_to f q (snippet r)))"
proof -
  from assms(1) obtain url out where url: "build_url ch q = Inr url"
    and out: "safeFetch (net url) = Inr out"
    and r: "r = channel_result toLowerCase parser q ch url out"
    by (rule fetch_channel_Inr)
  from r assms(2) have ok: "f_ok out" by (simp add: channel_result_def Let_def)
  have "\<exists>st body. net url = Responds st (BodyText body) \<and> f_text out = Some body"
  proof (cases "net url")
    case (Rejects msg)
    with out ok show ?thesis by (auto simp: safeFetch_Rejects)
  next
    case TimesOut
    with out ok show ?thesis by (auto simp: safeFetch_TimesOut)
  next
    case (Responds st body)
    with out ok show ?thesis
      by (cases body) (auto simp: safeFetch_Responds_text safeFetch_Responds_fails)
  qed
  then obtain st body where net: "net url = Responds st (BodyText body)"
    and got: "f_text out = Some body" by blast
  have snip: "snippet r = take 3000 (cleanText parser (Some body))"
    using r ok got by (simp add: channel_result_def Let_def)
  have score: "matchScore r =
                 (if sublist (toLowerCase q) (toLowerCase (snippet r)) then 1 else 0)"
    using r ok got by (simp add: channel_result_def Let_def includes_str_sublist)
  have folded: "matchScore r = 1 \<longleftrightarrow> occurs_up_to f q (snippet r)"
    if "toLowerCase q = map f q" and "toLowerCase (snippet r) = map f (snippet r)"
    using score that includes_map_iff [of f "snippet r" q]
    by (simp add: includes_str_sublist)
  from url net snip score folded show ?thesis by auto
qed

theorem snippet_capped_and_lowercase_match_witness:
  "fetch_channel sample_lower plain_text_parser deals_net (str ''tv'') (deals_channels ! 2)
     = Inr (deals_results ! 2)
   \<and> r_ok (deals_results ! 2)
   \<and> sample_lower (str ''tv'') = map ascii_lower (str ''tv'')
   \<and> sample_lower (snippet (deals_results ! 2)) = map ascii_lower (snippet (deals_results ! 2))
   \<and> matchScore (deals_results ! 2) = 1
   \<and> sublist (sample_lower (str ''tv'')) (sample_lower (snippet (deals_results ! 2)))
   \<and> occurs_up_to ascii_lower (str ''tv'') (snippet (deals_results ! 2))"
proof -
  have run: "fetch_channel sample_lower plain_text_parser deals_net (str ''tv'')
               (deals_channels ! 2) = Inr (deals_results ! 2)"
    by code_simp
  have ok: "r_ok (deals_results ! 2)" by (simp add: deals_results_def)
  have score: "matchScore (deals_results ! 2) = 1" by (simp add: deals_results_def)
  have query_lower: "sample_lower (str ''tv'') = map ascii_lower (str ''tv'')" by code_simp
  have snippet_lower: "sample_lower (snippet (deals_results ! 2))
                       = map ascii_lower (snippet (deals_results ! 2))"
    by code_simp
  from snippet_capped_and_lowercase_match [OF run ok, of ascii_lower]
  have "matchScore (deals_results ! 2) = 1
          \<longleftrightarrow> sublist (sample_lower (str ''tv'')) (sample_lower (snippet (deals_results ! 2)))"
    and "sample_lower (str ''tv'') = map ascii_lower (str ''tv'')
         \<and> sample_lower (snippet (deals_results ! 2))
             = map ascii_lower (snippet (deals_results ! 2))
         \<longrightarrow> (matchScore (deals_results ! 2) = 1
              \<longleftrightarrow> occurs_up_to ascii_lower (str ''tv'') (snippet (deals_results ! 2)))"
    by blast+
  with run ok score query_lower snippet_lower show ?thesis by blast
qed

text \<open>
  Claim C10: the result of a channel whose fetch failed has an empty snippet,
  \<open>matchScore\<close> 0, no status and an error string that is not empty, and it is not among
  the ranked results.
\<close>

theorem failed_channel_is_blank:
  assumes "fetch_channel toLowerCase parser net q ch = Inr r" and "\<not> r_ok r"
  shows "snippet r = [] \<and> matchScore r = 0 \<and> r_status r = None
         \<and> (\<exists>e. r_error r = Some e \<and> e \<noteq> [])
         \<and> with_rank r \<notin> set (ranked results)"
proof -
  have "with_rank r \<notin> set (ranked results)"
  proof
    assume "with_rank r \<in> set (ranked results)"
    then have "r_ok (with_rank r)" by (rule ranked_all_ok)
    with assms(2) show False by (simp add: with_rank_def)
  qed
  with channel_result_failed [OF assms] show ?thesis by simp
qed

theorem failed_channel_is_blank_witness:
  "fetch_channel sample_lower plain_text_parser deals_net (str ''tv'') (deals_channels ! 1) = Inr (deals_results ! 1)
   \<and> \<not> r_ok (deals_results ! 1)
   \<and> snippet (deals_results ! 1) = [] \<and> matchScore (deals_results ! 1) = 0
   \<and> r_status (deals_results ! 1) = None
   \<and> r_error (deals_results ! 1) = Some (str ''AbortError: This operation was aborted'')
   \<and> with_rank (deals_results ! 1) \<notin> set (ranked deals_results)"
proof -
  have run: "fetch_channel sample_lower plain_text_parser deals_net (str ''tv'') (deals_channels ! 1)
             = Inr (deals_results ! 1)"
    by code_simp
  have failed: "\<not> r_ok (deals_results ! 1)" by (simp add: deals_results_def)
  have err: "r_error (deals_results ! 1) = Some (str ''AbortError: This operation was aborted'')"
    by (simp add: deals_results_def)
  from failed_channel_is_blank [OF run failed, of deals_results] run failed err
  show ?thesis by simp
qed

section \<open>TextNormalizer\<close>

text \<open>
  Claim C8 states idempotence for every ASCII text without tags. The parser decodes
  character references, so a text without tags can change twice: \<^verbatim>\<open>&amp;amp;\<close> becomes
  \<^verbatim>\<open>&amp;\<close>, which becomes \<^verbatim>\<open>&\<close>.
\<close>

theorem cleanText_idempotent_counterexample:
  "cleanText plain_text_parser (Some (str ''&amp;amp;'')) = (str ''&amp;'')
   \<and> cleanText plain_text_parser (Some (cleanText plain_text_parser (Some (str ''&amp;amp;'')))) = (str ''&'')
   \<and> cleanText plain_text_parser (Some (cleanText plain_text_parser (Some (str ''&amp;amp;''))))
       \<noteq> cleanText plain_text_parser (Some (str ''&amp;amp;''))"
  by code_simp

text \<open>
  Claim C8, amended: \<open>cleanText\<close> returns the empty string for \<^verbatim>\<open>null\<close> and for the
  empty string, and normalizing twice is normalizing once for every text whose normal
  form the parser returns unchanged as the text of the body, and for every text on which
  the parser fails both times, so that the fallback path is taken.
\<close>

theorem cleanText_idempotent_on_fixed_text:
  "cleanText parser None = []
   \<and> cleanText parser (Some []) = []
   \<and> (parser (cleanText parser (Some x)) = Some (cleanText parser (Some x))
        \<or> (parser x = None \<and> parser (cleanText parser (Some x)) = None)
      \<longrightarrow> cleanText parser (Some (cleanText parser (Some x))) = cleanText parser (Some x))"
  using cleanText_fixed [of parser x] by (simp add: cleanText_def)

theorem cleanText_idempotent_on_fixed_text_witness:
  "plain_text_parser (cleanText plain_text_parser (Some (str ''  Best   TV deals '')))
     = Some (cleanText plain_text_parser (Some (str ''  Best   TV deals '')))
   \<and> cleanText plain_text_parser (Some (str ''  Best   TV deals '')) = (str ''Best TV deals'')
   \<and> cleanText plain_text_parser (Some (cleanText plain_text_parser (Some (str ''  Best   TV deals ''))))
     = (str ''Best TV deals'')"
proof -
  have once: "cleanText plain_text_parser (Some (str ''  Best   TV deals '')) = (str ''Best TV deals'')"
    by code_simp
  have same: "plain_text_parser (str ''Best TV deals'') = Some (str ''Best TV deals'')" by code_simp
  from cleanText_idempotent_on_fixed_text [of plain_text_parser "(str ''  Best   TV deals '')"]
    once same
  show ?thesis by simp
qed

end
